theory Spec2Isabelle
  imports Complex_Main "HOL-Library.Log_Nat"
begin

section \<open>JavaScript numbers\<close>

text \<open>
  Every amount the application computes with is a JavaScript \<open>number\<close>: an IEEE 754
  binary64 value.  A finite double is represented by the rational it denotes; the two
  zeros are identified.  \<open>fl\<close> rounds an exact rational result to the nearest double,
  ties to the even significand: 53 significant bits, subnormals from \<open>2^-1074\<close>,
  overflow to an infinity from \<open>2^1024\<close>.
\<close>

datatype jsnum = NaN | PInf | NInf | Fin rat

definition ilog2 :: "rat \<Rightarrow> int" where
  \<comment> \<open>for \<open>a > 0\<close>: the exponent \<open>e\<close> with \<open>2^e \<le> a < 2^(e+1)\<close>\<close>
  "ilog2 a =
     (let (p, q) = quotient_of a; d = bitlen p - bitlen q
      in if 2 powi d \<le> a then d else d - 1)"

definition round_even :: "rat \<Rightarrow> int" where
  "round_even x =
     (let f = \<lfloor>x\<rfloor>; r = x - of_int f
      in if r < 1 / 2 then f
         else if 1 / 2 < r then f + 1
         else if even f then f else f + 1)"

definition fl :: "rat \<Rightarrow> jsnum" where
  "fl x =
     (if x = 0 then Fin 0
      else
        let a = \<bar>x\<bar>;
            q = max (ilog2 a - 52) (- 1074);
            y = of_int (round_even (a / 2 powi q)) * 2 powi q
        in if 2 powi 1024 \<le> y then (if 0 < x then PInf else NInf)
           else Fin (if 0 < x then y else - y))"

fun js_neg :: "jsnum \<Rightarrow> jsnum" where
  "js_neg NaN = NaN"
| "js_neg PInf = NInf"
| "js_neg NInf = PInf"
| "js_neg (Fin x) = Fin (- x)"

fun js_add :: "jsnum \<Rightarrow> jsnum \<Rightarrow> jsnum" where
  "js_add NaN _ = NaN"
| "js_add _ NaN = NaN"
| "js_add PInf NInf = NaN"
| "js_add NInf PInf = NaN"
| "js_add PInf _ = PInf"
| "js_add NInf _ = NInf"
| "js_add _ PInf = PInf"
| "js_add _ NInf = NInf"
| "js_add (Fin x) (Fin y) = fl (x + y)"


fun js_mul :: "jsnum \<Rightarrow> jsnum \<Rightarrow> jsnum" where
  "js_mul NaN _ = NaN"
| "js_mul _ NaN = NaN"
| "js_mul (Fin x) (Fin y) = fl (x * y)"
| "js_mul (Fin x) PInf = (if x = 0 then NaN else if 0 < x then PInf else NInf)"
| "js_mul (Fin x) NInf = (if x = 0 then NaN else if 0 < x then NInf else PInf)"
| "js_mul PInf (Fin y) = (if y = 0 then NaN else if 0 < y then PInf else NInf)"
| "js_mul NInf (Fin y) = (if y = 0 then NaN else if 0 < y then NInf else PInf)"
| "js_mul PInf PInf = PInf"
| "js_mul NInf NInf = PInf"
| "js_mul PInf NInf = NInf"
| "js_mul NInf PInf = NInf"

fun js_lt :: "jsnum \<Rightarrow> jsnum \<Rightarrow> bool" where
  "js_lt NaN _ = False"
| "js_lt _ NaN = False"
| "js_lt PInf _ = False"
| "js_lt _ NInf = False"
| "js_lt NInf _ = True"
| "js_lt _ PInf = True"
| "js_lt (Fin x) (Fin y) = (x < y)"

fun js_ge :: "jsnum \<Rightarrow> jsnum \<Rightarrow> bool" where
  "js_ge NaN _ = False"
| "js_ge _ NaN = False"
| "js_ge PInf _ = True"
| "js_ge _ NInf = True"
| "js_ge NInf _ = False"
| "js_ge _ PInf = False"
| "js_ge (Fin x) (Fin y) = (y \<le> x)"


section \<open>Reading and printing numbers\<close>


definition is_digit :: "char \<Rightarrow> bool" where
  "is_digit c = (c \<in> set ''0123456789'')"

definition digits_val :: "string \<Rightarrow> nat" where
  "digits_val ds = foldl (\<lambda>n c. 10 * n + (of_char c - 48)) 0 ds"



type_synonym decimal = int
  \<comment> \<open>a value of a \<open>decimal(10, 2)\<close> column, counted in hundredths\<close>

definition Number :: "decimal \<Rightarrow> jsnum" where
  \<comment> \<open>\<open>Number(x.amount)\<close>: the column arrives as a decimal string such as \<open>"100.00"\<close>\<close>
  "Number c = fl (of_int c / 100)"

fun digits_of :: "nat \<Rightarrow> string" where
  "digits_of n =
     (if n < 10 then [''0123456789'' ! n]
      else digits_of (n div 10) @ [''0123456789'' ! (n mod 10)])"

declare digits_of.simps [simp del]

definition show_hundredths :: "bool \<Rightarrow> nat \<Rightarrow> string" where
  \<comment> \<open>\<open>n\<close> hundredths with exactly two fractional digits, after an optional sign\<close>
  "show_hundredths neg n =
     (if neg then ''-'' else []) @ digits_of (n div 100) @ ''.''
       @ digits_of (n mod 100 div 10) @ digits_of (n mod 10)"

fun toFixed2 :: "jsnum \<Rightarrow> string option" where
  \<comment> \<open>\<open>x.toFixed(2)\<close>: the nearest number of hundredths to the double, the larger
      one at a tie.  From \<open>10^21\<close> JavaScript prints the exponential notation of
      \<open>String(x)\<close>, which is not modelled: the result is \<open>None\<close> there.\<close>
  "toFixed2 NaN = Some ''NaN''"
| "toFixed2 PInf = Some ''Infinity''"
| "toFixed2 NInf = Some ''-Infinity''"
| "toFixed2 (Fin x) =
     (if 10 ^ 21 \<le> \<bar>x\<bar> then None
      else Some (show_hundredths (x < 0) (nat \<lfloor>\<bar>x\<bar> * 100 + 1 / 2\<rfloor>)))"

section \<open>The currency helpers (client/src/lib/currency.ts)\<close>

text \<open>
  \<open>dinero\<close>, \<open>add\<close>, \<open>subtract\<close> and \<open>toDecimal\<close> belong to the dinero.js library,
  of which the repository holds the type declaration only.  They are modelled as the
  library documents them: \<open>add\<close> and \<open>subtract\<close> throw unless both objects have the
  same currency, and \<open>toDecimal\<close> prints the amount at the scale of the currency.
\<close>

record currency =
  cur_code :: string
  cur_base :: nat
  cur_exponent :: nat


record dinero =
  dn_amount :: jsnum
  dn_currency :: currency

datatype dinero_error = CurrencyMismatch

definition add :: "dinero \<Rightarrow> dinero \<Rightarrow> dinero_error + dinero" where
  "add d1 d2 =
     (if dn_currency d1 = dn_currency d2
      then Inr \<lparr>dn_amount = js_add (dn_amount d1) (dn_amount d2), dn_currency = dn_currency d1\<rparr>
      else Inl CurrencyMismatch)"








section \<open>The ledger (shared/schema.ts, server/storage.ts)\<close>

datatype status = Paid | Pending | Overdue

datatype role = Admin | Accountant

record ymd =
  \<comment> \<open>a \<open>date\<close> column, \<open>YYYY-MM-DD\<close>: the month runs from 1 to 12\<close>
  d_year :: int
  d_month :: nat
  d_day :: nat

record user =
  user_id :: nat
  user_role :: role

record invoice =
  inv_id :: nat
  inv_title :: string
  inv_clientName :: string
  inv_amount :: decimal
  inv_date :: ymd
  inv_status :: status
  inv_userId :: nat
  inv_clientId :: "nat option"

record payment =
  pay_id :: nat
  pay_invoiceId :: nat
  pay_amount :: decimal
  pay_date :: ymd
  pay_receiptGenerated :: "bool option"
  pay_userId :: nat

record insert_payment =
  \<comment> \<open>\<open>InsertPayment\<close>: a payment without its id\<close>
  ip_invoiceId :: nat
  ip_amount :: decimal
  ip_date :: ymd
  ip_receiptGenerated :: "bool option"
  ip_userId :: nat

record partial_payment =
  \<comment> \<open>\<open>Partial<InsertPayment>\<close>: the columns an update sets\<close>
  pp_invoiceId :: "nat option"
  pp_amount :: "decimal option"
  pp_date :: "ymd option"
  pp_receiptGenerated :: "bool option"
  pp_userId :: "nat option"

text \<open>
  The tables are lists of rows, in the order in which a \<open>SELECT\<close> returns them;
  an \<open>INSERT\<close> appends a row and draws its id from the sequence of the
  \<open>serial\<close> column.
\<close>

record db =
  invoices :: "invoice list"
  payments :: "payment list"
  payments_id_seq :: nat


definition getInvoice :: "db \<Rightarrow> nat \<Rightarrow> invoice option" where
  "getInvoice s id0 = find (\<lambda>i. inv_id i = id0) (invoices s)"

definition updateInvoice :: "db \<Rightarrow> nat \<Rightarrow> status \<Rightarrow> db" where
  \<comment> \<open>the payment routes call it with \<open>{ status }\<close> and nothing else\<close>
  "updateInvoice s id0 st =
     s\<lparr>invoices := map (\<lambda>i. if inv_id i = id0 then i\<lparr>inv_status := st\<rparr> else i) (invoices s)\<rparr>"


definition getPaymentsByInvoice :: "db \<Rightarrow> nat \<Rightarrow> payment list" where
  "getPaymentsByInvoice s invoiceId = filter (\<lambda>p. pay_invoiceId p = invoiceId) (payments s)"

definition getPayment :: "db \<Rightarrow> nat \<Rightarrow> payment option" where
  "getPayment s id0 = find (\<lambda>p. pay_id p = id0) (payments s)"

definition createPayment :: "db \<Rightarrow> insert_payment \<Rightarrow> payment \<times> db" where
  "createPayment s data =
     (let newPayment =
            \<lparr>pay_id = payments_id_seq s + 1,
             pay_invoiceId = ip_invoiceId data,
             pay_amount = ip_amount data,
             pay_date = ip_date data,
             pay_receiptGenerated =
               (case ip_receiptGenerated data of None \<Rightarrow> Some False | Some b \<Rightarrow> Some b),
             pay_userId = ip_userId data\<rparr>
      in (newPayment,
          s\<lparr>payments := payments s @ [newPayment],
            payments_id_seq := payments_id_seq s + 1\<rparr>))"

definition set_columns :: "partial_payment \<Rightarrow> payment \<Rightarrow> payment" where
  "set_columns data p =
     p\<lparr>pay_invoiceId := (case pp_invoiceId data of None \<Rightarrow> pay_invoiceId p | Some v \<Rightarrow> v),
       pay_amount := (case pp_amount data of None \<Rightarrow> pay_amount p | Some v \<Rightarrow> v),
       pay_date := (case pp_date data of None \<Rightarrow> pay_date p | Some v \<Rightarrow> v),
       pay_receiptGenerated :=
         (case pp_receiptGenerated data of None \<Rightarrow> pay_receiptGenerated p | Some b \<Rightarrow> Some b),
       pay_userId := (case pp_userId data of None \<Rightarrow> pay_userId p | Some v \<Rightarrow> v)\<rparr>"

definition updatePayment :: "db \<Rightarrow> nat \<Rightarrow> partial_payment \<Rightarrow> payment option \<times> db" where
  "updatePayment s id0 data =
     (let s1 = s\<lparr>payments :=
                   map (\<lambda>p. if pay_id p = id0 then set_columns data p else p) (payments s)\<rparr>
      in (find (\<lambda>p. pay_id p = id0) (payments s1), s1))"

definition deletePayment :: "db \<Rightarrow> nat \<Rightarrow> db" where
  "deletePayment s id0 = s\<lparr>payments := filter (\<lambda>p. pay_id p \<noteq> id0) (payments s)\<rparr>"

section \<open>The payment routes (server/routes.ts)\<close>

datatype http_error =
  NotAuthenticated  \<comment> \<open>401\<close>
  | NotFound        \<comment> \<open>404\<close>
  | AccessDenied    \<comment> \<open>403\<close>
  | InvalidData     \<comment> \<open>400\<close>
  | ServerError     \<comment> \<open>500, through \<open>next(error)\<close>\<close>

datatype 'a field = Absent | Malformed | Given 'a
  \<comment> \<open>a key of the JSON body: missing, of a type the zod schema rejects, or accepted\<close>

record payment_body =
  b_invoiceId :: "nat field"
  b_amount :: "decimal field"
  b_date :: "ymd field"
  b_receiptGenerated :: "bool field"
  b_userId :: "nat field"
  b_other :: "(string \<times> string) list"
    \<comment> \<open>any further keys, such as a currency: the schema has no such column and zod
        drops them\<close>

definition insertPaymentSchema :: "payment_body \<Rightarrow> nat \<Rightarrow> insert_payment option" where
  \<comment> \<open>\<open>insertPaymentSchema.safeParse({...req.body, userId: req.user.id})\<close>\<close>
  "insertPaymentSchema body uid =
     (case (b_invoiceId body, b_amount body, b_date body) of
        (Given i, Given a, Given d) \<Rightarrow>
          (case b_receiptGenerated body of
             Malformed \<Rightarrow> None
           | Absent \<Rightarrow>
               Some \<lparr>ip_invoiceId = i, ip_amount = a, ip_date = d,
                     ip_receiptGenerated = None, ip_userId = uid\<rparr>
           | Given r \<Rightarrow>
               Some \<lparr>ip_invoiceId = i, ip_amount = a, ip_date = d,
                     ip_receiptGenerated = Some r, ip_userId = uid\<rparr>)
      | _ \<Rightarrow> None)"

fun optional :: "'a field \<Rightarrow> 'a option" where
  "optional (Given v) = Some v"
| "optional _ = None"

definition insertPaymentSchema_partial :: "payment_body \<Rightarrow> partial_payment option" where
  \<comment> \<open>\<open>insertPaymentSchema.partial().safeParse(req.body)\<close>\<close>
  "insertPaymentSchema_partial body =
     (if b_invoiceId body = Malformed \<or> b_amount body = Malformed \<or> b_date body = Malformed
         \<or> b_receiptGenerated body = Malformed \<or> b_userId body = Malformed
      then None
      else Some \<lparr>pp_invoiceId = optional (b_invoiceId body),
                 pp_amount = optional (b_amount body),
                 pp_date = optional (b_date body),
                 pp_receiptGenerated = optional (b_receiptGenerated body),
                 pp_userId = optional (b_userId body)\<rparr>)"

definition totalPaid_of :: "payment list \<Rightarrow> jsnum" where
  \<comment> \<open>\<open>ps.reduce((sum, p) => sum + Number(p.amount), 0)\<close>\<close>
  "totalPaid_of ps = foldl (\<lambda>sum p. js_add sum (Number (pay_amount p))) (Fin 0) ps"

definition reconcile_created :: "db \<Rightarrow> invoice \<Rightarrow> payment \<Rightarrow> db" where
  \<comment> \<open>\<open>POST /api/payments\<close>, after \<open>createPayment\<close>: "Update invoice status if payment
      covers the full amount"\<close>
  "reconcile_created s invoice payment =
     (let invoicePayments = getPaymentsByInvoice s (inv_id invoice);
          totalPaid = totalPaid_of (invoicePayments @ [payment])
      in if js_ge totalPaid (Number (inv_amount invoice)) \<and> inv_status invoice \<noteq> Paid
         then updateInvoice s (inv_id invoice) Paid
         else s)"

definition post_payment ::
  "user option \<Rightarrow> payment_body \<Rightarrow> db \<Rightarrow> (http_error + payment) \<times> db" where
  \<comment> \<open>\<open>POST /api/payments\<close>; a body without a usable \<open>invoiceId\<close> selects no invoice\<close>
  "post_payment req_user body s =
     (case req_user of
        None \<Rightarrow> (Inl NotAuthenticated, s)
      | Some u \<Rightarrow>
          (case (case b_invoiceId body of Given i \<Rightarrow> getInvoice s i | _ \<Rightarrow> None) of
             None \<Rightarrow> (Inl NotFound, s)
           | Some invoice \<Rightarrow>
               if user_role u \<noteq> Admin \<and> inv_userId invoice \<noteq> user_id u
               then (Inl AccessDenied, s)
               else
                 (case insertPaymentSchema body (user_id u) of
                    None \<Rightarrow> (Inl InvalidData, s)
                  | Some data \<Rightarrow>
                      let (payment, s1) = createPayment s data
                      in (Inr payment, reconcile_created s1 invoice payment))))"

definition put_payment ::
  "user option \<Rightarrow> nat \<Rightarrow> payment_body \<Rightarrow> db \<Rightarrow> (http_error + payment option) \<times> db" where
  \<comment> \<open>\<open>PUT /api/payments/:id\<close>; drizzle throws on an update that sets no column\<close>
  "put_payment req_user id0 body s =
     (case req_user of
        None \<Rightarrow> (Inl NotAuthenticated, s)
      | Some u \<Rightarrow>
          (case getPayment s id0 of
             None \<Rightarrow> (Inl NotFound, s)
           | Some payment \<Rightarrow>
               if user_role u \<noteq> Admin \<and> pay_userId payment \<noteq> user_id u
               then (Inl AccessDenied, s)
               else
                 (case insertPaymentSchema_partial body of
                    None \<Rightarrow> (Inl InvalidData, s)
                  | Some data \<Rightarrow>
                      if pp_invoiceId data = None \<and> pp_amount data = None \<and> pp_date data = None
                         \<and> pp_receiptGenerated data = None \<and> pp_userId data = None
                      then (Inl ServerError, s)
                      else
                        let (updatedPayment, s1) = updatePayment s id0 data
                        in (Inr updatedPayment, s1))))"

definition reconcile_deleted :: "db \<Rightarrow> payment \<Rightarrow> db" where
  \<comment> \<open>\<open>DELETE /api/payments/:id\<close>, after \<open>deletePayment\<close>: "Update invoice status if
      needed"\<close>
  "reconcile_deleted s payment =
     (case getInvoice s (pay_invoiceId payment) of
        None \<Rightarrow> s
      | Some invoice \<Rightarrow>
          if inv_status invoice = Paid
          then
            let remainingPayments = getPaymentsByInvoice s (inv_id invoice);
                totalPaid = totalPaid_of remainingPayments
            in if js_lt totalPaid (Number (inv_amount invoice))
               then updateInvoice s (inv_id invoice) Pending
               else s
          else s)"

definition delete_payment :: "user option \<Rightarrow> nat \<Rightarrow> db \<Rightarrow> (http_error + unit) \<times> db" where
  \<comment> \<open>\<open>DELETE /api/payments/:id\<close>\<close>
  "delete_payment req_user id0 s =
     (case req_user of
        None \<Rightarrow> (Inl NotAuthenticated, s)
      | Some u \<Rightarrow>
          (case getPayment s id0 of
             None \<Rightarrow> (Inl NotFound, s)
           | Some payment \<Rightarrow>
               if user_role u \<noteq> Admin \<and> pay_userId payment \<noteq> user_id u
               then (Inl AccessDenied, s)
               else (Inr (), reconcile_deleted (deletePayment s id0) payment)))"

section \<open>The dashboard (server/routes.ts)\<close>





section \<open>The report chart (client/src/pages/reports-page.tsx)\<close>

record jsdate =
  \<comment> \<open>the local calendar fields of a \<open>Date\<close>: \<open>getFullYear()\<close>, \<open>getMonth()\<close> from 0
      to 11, \<open>getDate()\<close>\<close>
  jd_year :: int
  jd_month :: nat
  jd_date :: nat

definition leap :: "int \<Rightarrow> bool" where
  "leap y = (if y mod 400 = 0 then True else if y mod 100 = 0 then False else y mod 4 = 0)"

definition daysInMonth :: "int \<Rightarrow> nat \<Rightarrow> nat" where
  "daysInMonth y m =
     (if m = 1 then (if leap y then 29 else 28)
      else if m = 3 \<or> m = 5 \<or> m = 8 \<or> m = 10 then 30
      else 31)"

definition setMonth :: "jsdate \<Rightarrow> int \<Rightarrow> jsdate" where
  \<comment> \<open>\<open>d.setMonth(mv)\<close>: months outside 0..11 carry into the year, and a day that the
      month does not have runs over into the next month\<close>
  "setMonth d mv =
     (let y = jd_year d + mv div 12;
          m = nat (mv mod 12);
          dim = daysInMonth y m
      in if jd_date d \<le> dim then \<lparr>jd_year = y, jd_month = m, jd_date = jd_date d\<rparr>
         else if m = 11 then \<lparr>jd_year = y + 1, jd_month = 0, jd_date = jd_date d - dim\<rparr>
         else \<lparr>jd_year = y, jd_month = m + 1, jd_date = jd_date d - dim\<rparr>)"

definition newDate :: "bool \<Rightarrow> ymd \<Rightarrow> jsdate" where
  \<comment> \<open>\<open>new Date("YYYY-MM-DD")\<close> is midnight UTC of that day; in a time zone behind UTC
      its local calendar fields are those of the day before\<close>
  "newDate behindUTC d =
     (let y = d_year d; m = d_month d - 1
      in if behindUTC then
           (if 1 < d_day d then \<lparr>jd_year = y, jd_month = m, jd_date = d_day d - 1\<rparr>
            else if 0 < m then \<lparr>jd_year = y, jd_month = m - 1, jd_date = daysInMonth y (m - 1)\<rparr>
            else \<lparr>jd_year = y - 1, jd_month = 11, jd_date = 31\<rparr>)
         else \<lparr>jd_year = y, jd_month = m, jd_date = d_day d\<rparr>)"

definition months :: "string list" where
  "months = [''Jan'', ''Feb'', ''Mar'', ''Apr'', ''May'', ''Jun'',
             ''Jul'', ''Aug'', ''Sep'', ''Oct'', ''Nov'', ''Dec'']"

record data_point =
  dp_name :: string
  dp_revenue :: "string option"
  dp_expenses :: "string option"
  dp_payments :: "string option"

record browser =
  \<comment> \<open>what the page reads besides its data: \<open>new Date()\<close>, the time zone, and the
      value that the call of \<open>Math.random()\<close> in iteration \<open>i\<close> returns\<close>
  now :: jsdate
  behindUTC :: bool
  random :: "nat \<Rightarrow> jsnum"

definition monthsCount_of :: "string \<Rightarrow> nat" where
  "monthsCount_of reportPeriod =
     (if reportPeriod = ''last_12_months'' then 12
      else if reportPeriod = ''last_3_months'' then 3
      else 6)"

definition monthRevenue_of :: "invoice list \<Rightarrow> jsnum" where
  \<comment> \<open>\<open>monthInvoices.reduce((sum, inv) => sum + Number(inv.amount), 0)\<close>\<close>
  "monthRevenue_of monthInvoices =
     foldl (\<lambda>sum inv. js_add sum (Number (inv_amount inv))) (Fin 0) monthInvoices"

definition data_point_at ::
  "browser \<Rightarrow> invoice list \<Rightarrow> payment list \<Rightarrow> jsdate \<Rightarrow> nat \<Rightarrow> data_point" where
  \<comment> \<open>the body of the loop, for its counter \<open>i\<close>\<close>
  "data_point_at env invs pays startDate i =
     (let monthDate = setMonth startDate (int (jd_month startDate) + int i);
          month = jd_month monthDate;
          year = jd_year monthDate;
          monthInvoices =
            filter (\<lambda>invoice. jd_month (newDate (behindUTC env) (inv_date invoice)) = month
                              \<and> jd_year (newDate (behindUTC env) (inv_date invoice)) = year) invs;
          monthRevenue = monthRevenue_of monthInvoices;
          monthPayments =
            filter (\<lambda>payment. jd_month (newDate (behindUTC env) (pay_date payment)) = month
                              \<and> jd_year (newDate (behindUTC env) (pay_date payment)) = year) pays;
          monthPaymentTotal = totalPaid_of monthPayments;
          randomFactor = js_add (fl (6 / 10)) (js_mul (random env i) (fl (2 / 10)));
          simulatedExpenses = js_mul monthRevenue randomFactor
      in \<lparr>dp_name = months ! month,
          dp_revenue = toFixed2 monthRevenue,
          dp_expenses = toFixed2 simulatedExpenses,
          dp_payments = toFixed2 monthPaymentTotal\<rparr>)"

definition calculateReportData ::
  "browser \<Rightarrow> invoice list option \<Rightarrow> payment list option \<Rightarrow> bool \<Rightarrow> bool \<Rightarrow> string
     \<Rightarrow> data_point list option" where
  "calculateReportData env invoices0 payments0 isLoadingInvoices isLoadingPayments reportPeriod =
     (case invoices0 of
        None \<Rightarrow> None
      | Some invs \<Rightarrow>
          (case payments0 of
             None \<Rightarrow> None
           | Some pays \<Rightarrow>
               if isLoadingInvoices \<or> isLoadingPayments then None
               else
                 let monthsCount = monthsCount_of reportPeriod;
                     currentDate = now env;
                     startDate =
                       setMonth (now env) (int (jd_month currentDate) - (int monthsCount - 1))
                 in Some (map (data_point_at env invs pays startDate) [0..<monthsCount])))"

section \<open>The data of the scenarios\<close>

definition on_day :: "int \<Rightarrow> nat \<Rightarrow> nat \<Rightarrow> ymd" where
  "on_day y m d = \<lparr>d_year = y, d_month = m, d_day = d\<rparr>"

definition accountant :: user where
  "accountant = \<lparr>user_id = 1, user_role = Accountant\<rparr>"

definition an_invoice :: "nat \<Rightarrow> decimal \<Rightarrow> status \<Rightarrow> invoice" where
  \<comment> \<open>an invoice of the accountant, issued on 15 March 2024\<close>
  "an_invoice n a st =
     \<lparr>inv_id = n, inv_title = ''Consulting'', inv_clientName = ''Acme'', inv_amount = a,
      inv_date = on_day 2024 3 15, inv_status = st, inv_userId = 1, inv_clientId = None\<rparr>"

definition a_payment :: "nat \<Rightarrow> nat \<Rightarrow> decimal \<Rightarrow> payment" where
  \<comment> \<open>a payment of the accountant, made on 20 March 2024\<close>
  "a_payment n i a =
     \<lparr>pay_id = n, pay_invoiceId = i, pay_amount = a, pay_date = on_day 2024 3 20,
      pay_receiptGenerated = Some False, pay_userId = 1\<rparr>"

definition pay_request :: "nat \<Rightarrow> decimal \<Rightarrow> payment_body" where
  \<comment> \<open>the body \<open>{ invoiceId, amount, date }\<close>\<close>
  "pay_request i a =
     \<lparr>b_invoiceId = Given i, b_amount = Given a, b_date = Given (on_day 2024 3 20),
      b_receiptGenerated = Absent, b_userId = Absent, b_other = []\<rparr>"

definition amount_request :: "decimal \<Rightarrow> payment_body" where
  \<comment> \<open>the body \<open>{ amount }\<close>\<close>
  "amount_request a =
     \<lparr>b_invoiceId = Absent, b_amount = Given a, b_date = Absent,
      b_receiptGenerated = Absent, b_userId = Absent, b_other = []\<rparr>"

definition ledger :: "invoice list \<Rightarrow> payment list \<Rightarrow> db" where
  "ledger invs ps = \<lparr>invoices = invs, payments = ps, payments_id_seq = length ps\<rparr>"

definition a_browser :: "jsnum \<Rightarrow> browser" where
  \<comment> \<open>a browser on 15 March 2024, not behind UTC, where every call of \<open>Math.random()\<close>
      returns \<open>r\<close>\<close>
  "a_browser r =
     \<lparr>now = \<lparr>jd_year = 2024, jd_month = 2, jd_date = 15\<rparr>, behindUTC = False,
      random = (\<lambda>i. r)\<rparr>"


definition many_invoices :: "nat \<Rightarrow> nat \<Rightarrow> decimal \<Rightarrow> invoice list" where
  \<comment> \<open>the invoices numbered from \<open>i\<close> to \<open>j - 1\<close>, each of the amount \<open>a\<close>\<close>
  "many_invoices i j a = map (\<lambda>n. an_invoice n a Pending) [i..<j]"

definition read_hundredths :: "string \<Rightarrow> int" where
  \<comment> \<open>the number of hundredths that a printed amount such as \<open>-12.34\<close> denotes\<close>
  "read_hundredths s =
     (if take 1 s = ''-'' then - int (digits_val (filter is_digit s))
      else int (digits_val (filter is_digit s)))"

definition running_sum :: "('a \<Rightarrow> decimal) \<Rightarrow> 'a list \<Rightarrow> jsnum" where
  \<comment> \<open>the shape that the sums of the routes and of the report share:
      \<open>xs.reduce((sum, x) => sum + Number(x.amount), 0)\<close>\<close>
  "running_sum f xs = foldl (\<lambda>s x. js_add s (Number (f x))) (Fin 0) xs"

section \<open>Rounding to a double: evaluation and exactness\<close>

lemma pow2_bitlen_bounds:
  fixes p :: int assumes "0 < p"
  shows "(2::rat) powi (bitlen p - 1) \<le> of_int p" "of_int p < (2::rat) powi (bitlen p)"
proof -
  have b: "1 \<le> bitlen p" using assms by (simp add: bitlen_alt_def)
  from bitlen_bounds[OF assms] have lo: "2 ^ nat (bitlen p - 1) \<le> p" and hi: "p < 2 ^ nat (bitlen p)"
    by auto
  have "(of_int (2 ^ nat (bitlen p - 1)) :: rat) \<le> of_int p" using lo by (simp only: of_int_le_iff)
  then show "(2::rat) powi (bitlen p - 1) \<le> of_int p" using b by (simp add: power_int_nonneg_exp)
  have "(of_int p :: rat) < of_int (2 ^ nat (bitlen p))" using hi by (simp only: of_int_less_iff)
  then show "of_int p < (2::rat) powi (bitlen p)" using b by (simp add: power_int_nonneg_exp)
qed

lemma ilog2_bounds:
  assumes "0 < a"
  shows "2 powi (ilog2 a) \<le> a \<and> a < 2 powi (ilog2 a + 1)"
proof -
  obtain p q where pq: "quotient_of a = (p, q)" by (cases "quotient_of a")
  have q: "0 < q" using pq by (rule quotient_of_denom_pos)
  have a: "a = of_int p / of_int q" using pq by (rule quotient_of_div)
  have p: "0 < p" using assms q a by (simp add: zero_less_divide_iff)
  define d where "d = bitlen p - bitlen q"
  have qr: "(0::rat) < of_int q" using q by simp
  have up: "a < 2 powi (d + 1)"
  proof -
    have "of_int p < (2::rat) powi (bitlen p)" using p by (rule pow2_bitlen_bounds)
    also have "\<dots> = 2 powi (d + 1) * 2 powi (bitlen q - 1)"
      by (simp add: d_def power_int_add[symmetric])
    also have "\<dots> \<le> 2 powi (d + 1) * of_int q"
      using pow2_bitlen_bounds(1)[OF q] by (simp add: mult_left_mono)
    finally show ?thesis using qr by (simp add: a pos_divide_less_eq)
  qed
  have lo: "2 powi (d - 1) \<le> a"
  proof -
    have "2 powi (d - 1) * of_int q \<le> (2::rat) powi (d - 1) * 2 powi (bitlen q)"
      using pow2_bitlen_bounds(2)[OF q] by (simp add: mult_left_mono)
    also have "\<dots> = 2 powi (bitlen p - 1)"
      by (simp add: d_def power_int_add[symmetric])
    also have "\<dots> \<le> of_int p" using p by (rule pow2_bitlen_bounds)
    finally show ?thesis using qr by (simp add: a pos_le_divide_eq)
  qed
  have il: "ilog2 a = (if 2 powi d \<le> a then d else d - 1)"
    by (simp add: ilog2_def pq d_def Let_def)
  show ?thesis
  proof (cases "2 powi d \<le> a")
    case True then show ?thesis using up il by simp
  next
    case False then show ?thesis using lo il by simp
  qed
qed

lemma pow2_less_cancel:
  assumes "(2::rat) powi m < 2 powi n"
  shows "m < n"
proof (rule ccontr)
  assume "\<not> m < n"
  then have "n \<le> m" by simp
  then have "(2::rat) powi n \<le> 2 powi m" by (rule power_int_increasing) simp
  then show False using assms by simp
qed

lemma ilog2_eqI:
  assumes "2 powi e \<le> a" "a < 2 powi (e + 1)"
  shows "ilog2 a = e"
proof -
  have pos: "0 < a" using assms(1) by (rule less_le_trans[rotated]) simp
  from ilog2_bounds[OF pos] have b1: "2 powi (ilog2 a) \<le> a" and b2: "a < 2 powi (ilog2 a + 1)" by auto
  have "(2::rat) powi e < 2 powi (ilog2 a + 1)" using assms(1) b2 by simp
  then have "e < ilog2 a + 1" by (rule pow2_less_cancel)
  moreover have "(2::rat) powi (ilog2 a) < 2 powi (e + 1)" using assms(2) b1 by simp
  then have "ilog2 a < e + 1" by (rule pow2_less_cancel)
  ultimately show ?thesis by simp
qed

lemma round_even_eqI:
  assumes "\<bar>x - of_int n\<bar> < 1 / 2"
  shows "round_even x = n"
proof -
  have "\<lfloor>x\<rfloor> = n \<or> \<lfloor>x\<rfloor> = n - 1" using assms by linarith
  then show ?thesis
  proof
    assume f: "\<lfloor>x\<rfloor> = n"
    then have "x - of_int n < 1 / 2" using assms by linarith
    then show ?thesis using f by (simp add: round_even_def Let_def)
  next
    assume f: "\<lfloor>x\<rfloor> = n - 1"
    have "- (1 / 2) < x - of_int n" using assms by (simp only: abs_less_iff) simp
    then have "1 / 2 < x - of_int (n - 1)" by simp
    then show ?thesis using f by (simp add: round_even_def Let_def)
  qed
qed

lemma round_even_of_int: "round_even (of_int n) = n"
  by (simp add: round_even_def)


lemma round_even_cases: "round_even x = \<lfloor>x\<rfloor> \<or> (round_even x = \<lfloor>x\<rfloor> + 1 \<and> of_int \<lfloor>x\<rfloor> < x)"
  by (auto simp add: round_even_def Let_def)

lemma round_even_le:
  assumes "x \<le> of_int k"
  shows "round_even x \<le> k"
proof -
  have f: "\<lfloor>x\<rfloor> \<le> k" using assms by (simp add: floor_le_iff)
  from round_even_cases[of x] show ?thesis
  proof
    assume "round_even x = \<lfloor>x\<rfloor>" then show ?thesis using f by simp
  next
    assume a: "round_even x = \<lfloor>x\<rfloor> + 1 \<and> of_int \<lfloor>x\<rfloor> < x"
    then have "of_int \<lfloor>x\<rfloor> < (of_int k :: rat)" using assms by linarith
    then have "\<lfloor>x\<rfloor> < k" by (simp only: of_int_less_iff)
    then show ?thesis using a by simp
  qed
qed

lemma fl_pos_normal:
  assumes lo: "2 powi e \<le> x" and hi: "x < 2 powi (e + 1)"
    and e1: "- 1022 \<le> e" and e2: "e \<le> 1022"
    and n: "round_even (x / 2 powi (e - 52)) = n"
  shows "fl x = Fin (of_int n * 2 powi (e - 52))"
proof -
  have pos: "0 < x" using lo by (rule less_le_trans[rotated]) simp
  have il: "ilog2 x = e" using lo hi by (rule ilog2_eqI)
  have q: "max (ilog2 \<bar>x\<bar> - 52) (- 1074) = e - 52" using pos il e1 by simp
  have "x / 2 powi (e - 52) \<le> 2 powi (e + 1) / 2 powi (e - 52)"
    using hi by (simp add: divide_right_mono)
  also have "\<dots> = 2 powi 53" by (simp add: power_int_diff[symmetric])
  also have "\<dots> = of_int (2 ^ 53)" by simp
  finally have "round_even (x / 2 powi (e - 52)) \<le> 2 ^ 53" by (rule round_even_le)
  then have "(of_int n :: rat) \<le> of_int (2 ^ 53)" using n by (simp only: of_int_le_iff)
  then have "(of_int n :: rat) * 2 powi (e - 52) \<le> of_int (2 ^ 53) * 2 powi (e - 52)"
    by (rule mult_right_mono) simp
  also have "\<dots> = 2 powi 53 * 2 powi (e - 52)" by simp
  also have "\<dots> = 2 powi (e + 1)"
    using power_int_add[of "2::rat" 53 "e - 52"] by (simp del: power_int_numeral add: add.commute)
  also have "\<dots> < 2 powi 1024" using e2 by (intro power_int_strict_increasing) simp_all
  finally have y: "\<not> 2 powi 1024 \<le> (of_int n :: rat) * 2 powi (e - 52)" by simp
  show ?thesis using pos q n y by (simp add: fl_def Let_def del: power_int_numeral)
qed

lemma fl_eqI:
  assumes "2 powi e \<le> x" "x < 2 powi (e + 1)" "- 1022 \<le> e" "e \<le> 1022"
    and "\<bar>x / 2 powi (e - 52) - of_int n\<bar> < 1 / 2"
  shows "fl x = Fin (of_int n * 2 powi (e - 52))"
  using assms(1-4) round_even_eqI[OF assms(5)] by (rule fl_pos_normal)

lemma fl_exact:
  assumes "2 powi e \<le> x" "x < 2 powi (e + 1)" "- 1022 \<le> e" "e \<le> 1022"
    and "x / 2 powi (e - 52) = of_int n"
  shows "fl x = Fin x"
proof -
  have r: "round_even (x / 2 powi (e - 52)) = n" using assms(5) by (simp add: round_even_of_int)
  have "fl x = Fin (of_int n * 2 powi (e - 52))" using assms(1-4) r by (rule fl_pos_normal)
  also have "of_int n * 2 powi (e - 52) = x" using assms(5)[symmetric] by simp
  finally show ?thesis .
qed

lemma fl_minus: "fl (- x) = js_neg (fl x)"
  by (simp add: fl_def Let_def)


lemma fl_scaled_pos:
  assumes m: "0 < m" "m \<le> 2 ^ 53" and k: "- 1022 \<le> k" "k \<le> 969"
  shows "fl (of_int m * 2 powi k) = Fin (of_int m * 2 powi k)"
proof -
  define e where "e = bitlen m - 1"
  have lo: "(2::rat) powi e \<le> of_int m" and hi: "of_int m < (2::rat) powi (e + 1)"
    using pow2_bitlen_bounds[OF m(1)] by (simp_all add: e_def)
  have e0: "0 \<le> e" using m(1) by (simp add: e_def bitlen_alt_def)
  have "(2::rat) powi e \<le> of_int (2 ^ 53)" using lo m(2) by (meson of_int_le_iff order_trans)
  then have "(2::rat) powi e < 2 powi 54" by simp
  then have e53: "e \<le> 53" using pow2_less_cancel[of e 54] by simp
  have p: "(0::rat) < 2 powi k" by simp
  have lo': "2 powi (e + k) \<le> of_int m * (2::rat) powi k"
    using lo p by (simp add: power_int_add mult_right_mono)
  have hi': "of_int m * (2::rat) powi k < 2 powi (e + k + 1)"
  proof -
    have "of_int m * (2::rat) powi k < 2 powi (e + 1) * 2 powi k"
      using hi p by (simp add: mult_strict_right_mono)
    also have "\<dots> = 2 powi (e + k + 1)" by (simp add: power_int_add[symmetric] add.commute add.left_commute)
    finally show ?thesis .
  qed
  have q: "of_int m * (2::rat) powi k / 2 powi (e + k - 52) = of_int m * 2 powi (52 - e)"
  proof -
    have "(2::rat) powi k / 2 powi (e + k - 52) = 2 powi (k - (e + k - 52))"
      by (rule power_int_diff[symmetric]) simp
    then have "of_int m * ((2::rat) powi k / 2 powi (e + k - 52)) = of_int m * 2 powi (52 - e)"
      by simp
    then show ?thesis by (simp only: times_divide_eq_right)
  qed
  have "\<exists>n. of_int m * (2::rat) powi (52 - e) = of_int n"
  proof (cases "e \<le> 52")
    case True
    then have "(2::rat) powi (52 - e) = of_int (2 ^ nat (52 - e))"
      by (simp add: power_int_nonneg_exp)
    then have "of_int m * (2::rat) powi (52 - e) = of_int (m * 2 ^ nat (52 - e))" by simp
    then show ?thesis by blast
  next
    case False
    then have e: "e = 53" using e53 by simp
    have "(2::rat) powi 53 \<le> of_int m" using lo e by simp
    then have "(of_int (2 ^ 53) :: rat) \<le> of_int m" by simp
    then have "2 ^ 53 \<le> m" by (simp only: of_int_le_iff)
    then have "m = 2 ^ 53" using m(2) by simp
    then have "of_int m * (2::rat) powi (52 - e) = of_int (2 ^ 52)" using e by simp
    then show ?thesis by blast
  qed
  then obtain n where n: "of_int m * (2::rat) powi k / 2 powi (e + k - 52) = of_int n"
    using q by auto
  show ?thesis
    using lo' hi' _ _ n
  proof (rule fl_exact)
    show "- 1022 \<le> e + k" using e0 k by simp
    show "e + k \<le> 1022" using e53 k by simp
  qed
qed

lemma fl_scaled_int:
  assumes m: "\<bar>m\<bar> \<le> 2 ^ 53" and k: "- 1022 \<le> k" "k \<le> 969"
  shows "fl (of_int m * 2 powi k) = Fin (of_int m * 2 powi k)"
proof -
  consider "m = 0" | "0 < m" | "m < 0" by linarith
  then show ?thesis
  proof cases
    case 1 then show ?thesis by (simp add: fl_def)
  next
    case 2 then show ?thesis using m k by (intro fl_scaled_pos) simp_all
  next
    case 3
    then have "fl (of_int (- m) * 2 powi k) = Fin (of_int (- m) * 2 powi k)"
      using m k by (intro fl_scaled_pos) simp_all
    moreover have "fl (of_int m * 2 powi k) = js_neg (fl (of_int (- m) * 2 powi k))"
      using fl_minus[of "of_int (- m) * 2 powi k"] by simp
    ultimately show ?thesis by simp
  qed
qed

lemma fl_of_int: "\<bar>m\<bar> \<le> 2 ^ 53 \<Longrightarrow> fl (of_int m) = Fin (of_int m)"
  using fl_scaled_int[of m 0] by simp

lemma fl_numeral [simp]: "numeral w \<le> (2::int) ^ 53 \<Longrightarrow> fl (numeral w) = Fin (numeral w)"
  using fl_of_int[of "numeral w"] by simp

lemma fl_0 [simp]: "fl 0 = Fin 0"
  by (simp add: fl_def)

lemma fl_1 [simp]: "fl 1 = Fin 1"
  using fl_of_int[of 1] by simp

lemma floor_rat_numeral [simp]: "\<lfloor>(numeral a / numeral b :: rat)\<rfloor> = numeral a div numeral b"
  using floor_divide_of_int_eq[of "numeral a" "numeral b", where ?'a = rat] by simp

lemma floor_rat_neg_numeral [simp]:
  "\<lfloor>- (numeral a / numeral b :: rat)\<rfloor> = - numeral a div numeral b"
  using floor_divide_of_int_eq[of "- numeral a" "numeral b", where ?'a = rat] by simp

section \<open>The rounding error of a running sum\<close>

lemma round_even_near: "\<bar>of_int (round_even z) - z\<bar> \<le> 1 / 2"
proof -
  have f: "of_int \<lfloor>z\<rfloor> \<le> z" "z < of_int \<lfloor>z\<rfloor> + 1" by linarith+
  show ?thesis
    using f by (auto simp add: round_even_def Let_def abs_le_iff)
qed

lemma ilog2_less:
  assumes "0 < a" "a < 2 powi k"
  shows "ilog2 a < k"
proof -
  have "2 powi (ilog2 a) \<le> a" using ilog2_bounds[OF assms(1)] by simp
  then have "(2::rat) powi (ilog2 a) < 2 powi k" using assms(2) by simp
  then show ?thesis by (rule pow2_less_cancel)
qed

lemma fl_error_pos:
  assumes pos: "0 < a" and small: "a < 2 powi 1023"
  shows "\<exists>y. fl a = Fin y \<and> \<bar>y - a\<bar> \<le> a / 2 ^ 53 + 1 / 2 ^ 1075"
proof -
  define e where "e = ilog2 a"
  define q where "q = max (e - 52) (- 1074)"
  define n where "n = round_even (a / 2 powi q)"
  define y where "y = of_int n * (2::rat) powi q"
  have lo: "2 powi e \<le> a" using ilog2_bounds[OF pos] by (simp add: e_def)
  have e: "e < 1023" unfolding e_def using pos small by (rule ilog2_less)
  have q0: "(0::rat) < 2 powi q" by simp
  have "\<bar>of_int n - a / 2 powi q\<bar> \<le> 1 / 2" unfolding n_def by (rule round_even_near)
  then have "\<bar>of_int n - a / 2 powi q\<bar> * 2 powi q \<le> 1 / 2 * 2 powi q"
    using q0 by (simp add: mult_right_mono)
  moreover have "\<bar>of_int n - a / 2 powi q\<bar> * 2 powi q = \<bar>y - a\<bar>"
  proof -
    have "\<bar>of_int n - a / 2 powi q\<bar> * 2 powi q = \<bar>(of_int n - a / 2 powi q) * 2 powi q\<bar>"
      using q0 by (simp add: abs_mult)
    also have "(of_int n - a / 2 powi q) * 2 powi q = y - a"
      using q0 by (simp add: y_def left_diff_distrib)
    finally show ?thesis .
  qed
  ultimately have err: "\<bar>y - a\<bar> \<le> 2 powi q / 2" by simp
  have half: "(2::rat) powi q / 2 \<le> a / 2 ^ 53 + 1 / 2 ^ 1075"
  proof (cases "e - 52 \<le> - 1074")
    case True
    then have "q = - 1074" by (simp add: q_def)
    then have "(2::rat) powi q / 2 = 1 / 2 ^ 1075" by (simp add: power_int_minus_divide)
    moreover have "0 \<le> a / 2 ^ 53" using pos by simp
    ultimately show ?thesis by linarith
  next
    case False
    then have "q = e - 52" by (simp add: q_def)
    then have "(2::rat) powi q / 2 = 2 powi e / 2 ^ 53"
      by (simp add: power_int_diff)
    also have "\<dots> \<le> a / 2 ^ 53" using lo by (simp add: divide_right_mono)
    finally show ?thesis by simp
  qed
  define B where "B = (2::rat) powi 1023"
  have B0: "0 < B" by (simp add: B_def del: power_int_numeral)
  have qs: "q \<le> 1023" using e by (simp add: q_def)
  have "(2::rat) powi q \<le> B" unfolding B_def using qs by (intro power_int_increasing) simp_all
  moreover have "y \<le> a + 2 powi q / 2" using err by linarith
  moreover have "a < B" using small by (simp add: B_def del: power_int_numeral)
  ultimately have "y < B + B" using B0 by linarith
  moreover have "(2::rat) powi 1024 = B + B"
    using power_int_add[of "2::rat" 1 1023] by (simp add: B_def del: power_int_numeral)
  ultimately have nov: "\<not> 2 powi 1024 \<le> y" by (simp del: power_int_numeral)
  have "fl a = Fin y"
    using pos nov by (simp add: fl_def Let_def y_def n_def q_def e_def del: power_int_numeral)
  then show ?thesis using err half by (intro exI[of _ y]) simp
qed

lemma fl_error:
  assumes "\<bar>x\<bar> < 2 powi 1023"
  shows "\<exists>y. fl x = Fin y \<and> \<bar>y - x\<bar> \<le> \<bar>x\<bar> / 2 ^ 53 + 1 / 2 ^ 1075"
proof -
  consider "x = 0" | "0 < x" | "x < 0" by linarith
  then show ?thesis
  proof cases
    case 1 then show ?thesis by (simp add: fl_def)
  next
    case 2 then show ?thesis using fl_error_pos[of x] assms by simp
  next
    case 3
    then obtain y where y: "fl (- x) = Fin y" "\<bar>y - (- x)\<bar> \<le> (- x) / 2 ^ 53 + 1 / 2 ^ 1075"
      using fl_error_pos[of "- x"] assms by auto
    have "fl x = js_neg (fl (- x))" using fl_minus[of "- x"] by simp
    then have "fl x = Fin (- y)" using y(1) by simp
    moreover have "\<bar>- y - x\<bar> = \<bar>y - (- x)\<bar>" by simp
    ultimately show ?thesis using y(2) 3 by (intro exI[of _ "- y"]) simp
  qed
qed


lemma tiny_le: "(1::rat) / 2 ^ 1075 \<le> 1 / 2 ^ 26"
  by (intro divide_left_mono power_increasing) simp_all

lemma below_2_1023: "x < 2 ^ 36 \<Longrightarrow> (x::rat) < 2 powi 1023"
proof -
  assume "x < 2 ^ 36"
  moreover have "(2::rat) powi 36 \<le> 2 powi 1023" by (intro power_int_increasing) simp_all
  ultimately show ?thesis by simp
qed

lemma Number_error:
  assumes "\<bar>c\<bar> \<le> 10 ^ 10"
  shows "\<exists>b. Number c = Fin b \<and> \<bar>b - of_int c / 100\<bar> \<le> 1 / 2 ^ 25"
proof -
  have "\<bar>(of_int c :: rat)\<bar> \<le> of_int (10 ^ 10)" using assms by (simp only: of_int_abs[symmetric] of_int_le_iff)
  then have c: "\<bar>(of_int c :: rat) / 100\<bar> \<le> 10 ^ 8" by simp
  then have "\<bar>(of_int c :: rat) / 100\<bar> < 2 ^ 36" by simp
  then have "\<bar>(of_int c :: rat) / 100\<bar> < 2 powi 1023" by (rule below_2_1023)
  then obtain b where b: "fl (of_int c / 100) = Fin b"
    "\<bar>b - of_int c / 100\<bar> \<le> \<bar>of_int c / 100\<bar> / 2 ^ 53 + 1 / 2 ^ 1075"
    using fl_error by blast
  have "\<bar>(of_int c :: rat) / 100\<bar> / 2 ^ 53 \<le> 10 ^ 8 / 2 ^ 53" using c by (simp add: divide_right_mono)
  then have "\<bar>b - of_int c / 100\<bar> \<le> 10 ^ 8 / 2 ^ 53 + 1 / 2 ^ 26" using b(2) tiny_le by linarith
  also have "\<dots> \<le> 1 / 2 ^ 25" by simp
  finally show ?thesis using b(1) by (auto simp add: Number_def)
qed

lemma sum_list_abs_le:
  fixes f :: "'a \<Rightarrow> int"
  assumes "\<And>x. x \<in> set xs \<Longrightarrow> \<bar>f x\<bar> \<le> C"
  shows "\<bar>sum_list (map f xs)\<bar> \<le> int (length xs) * C"
  using assms
proof (induction xs)
  case Nil
  then show ?case by simp
next
  case (Cons x xs)
  have "\<bar>f x\<bar> \<le> C" using Cons.prems by simp
  moreover have "\<bar>sum_list (map f xs)\<bar> \<le> int (length xs) * C" using Cons by simp
  ultimately show ?case by (simp add: algebra_simps)
qed

lemma running_sum_snoc: "running_sum f (xs @ [x]) = js_add (running_sum f xs) (Number (f x))"
  by (simp add: running_sum_def)

lemma running_sum_error:
  fixes f :: "'a \<Rightarrow> decimal"
  assumes "\<And>x. x \<in> set xs \<Longrightarrow> \<bar>f x\<bar> \<le> 10 ^ 10" and "length xs \<le> 600"
  shows "\<exists>y. running_sum f xs = Fin y
           \<and> \<bar>y - of_int (sum_list (map f xs)) / 100\<bar> \<le> of_nat (length xs) * (129 / 2 ^ 24)"
  using assms
proof (induction xs rule: rev_induct)
  case Nil
  then show ?case by (simp add: running_sum_def)
next
  case (snoc x xs)
  define T where "T = (of_int (sum_list (map f xs)) :: rat) / 100"
  define a where "a = (of_int (f x) :: rat) / 100"
  define k where "k = (of_nat (length xs) :: rat)"
  have len: "length xs \<le> 599" using snoc.prems(2) by simp
  then have k: "k \<le> 599" by (simp add: k_def)
  obtain y where y: "running_sum f xs = Fin y" "\<bar>y - T\<bar> \<le> k * (129 / 16777216)"
    using snoc.IH snoc.prems len by (auto simp add: T_def k_def)
  have fx: "\<bar>f x\<bar> \<le> 10 ^ 10" using snoc.prems(1) by simp
  then obtain b where b: "Number (f x) = Fin b" "\<bar>b - a\<bar> \<le> 1 / 33554432"
    using Number_error[of "f x"] by (auto simp add: a_def)
  have "\<bar>(of_int (f x) :: rat)\<bar> \<le> of_int (10 ^ 10)"
    using fx by (simp only: of_int_abs[symmetric] of_int_le_iff)
  then have a1: "\<bar>a\<bar> \<le> 100000000" by (simp add: a_def)
  have "\<bar>sum_list (map f xs)\<bar> \<le> int (length xs) * 10 ^ 10"
    using snoc.prems(1) by (intro sum_list_abs_le) simp
  then have "\<bar>(of_int (sum_list (map f xs)) :: rat)\<bar> \<le> of_int (int (length xs) * 10 ^ 10)"
    by (simp only: of_int_abs[symmetric] of_int_le_iff)
  then have "\<bar>T\<bar> \<le> k * 100000000" by (simp add: T_def k_def)
  then have T1: "\<bar>T\<bar> \<le> 59900000000" using k by linarith
  have yb: "\<bar>y + b\<bar> < 68719476736" using y(2) b(2) T1 a1 k by linarith
  then have "\<bar>y + b\<bar> < 2 ^ 36" by simp
  then have "\<bar>y + b\<bar> < 2 powi 1023" by (rule below_2_1023)
  then obtain z where z: "fl (y + b) = Fin z" "\<bar>z - (y + b)\<bar> \<le> \<bar>y + b\<bar> / 2 ^ 53 + 1 / 2 ^ 1075"
    using fl_error by blast
  have "\<bar>y + b\<bar> / 2 ^ 53 \<le> 68719476736 / 2 ^ 53" using yb by (intro divide_right_mono) simp_all
  moreover have "(1::rat) / 2 ^ 1075 \<le> 1 / 67108864" using tiny_le by simp
  ultimately have zerr: "\<bar>z - (y + b)\<bar> \<le> 1 / 131072 + 1 / 67108864" using z(2) by simp
  have fin: "running_sum f (xs @ [x]) = Fin z"
    using y(1) b(1) z(1) by (simp add: running_sum_snoc)
  have "\<bar>z - (T + a)\<bar> \<le> k * (129 / 16777216) + 129 / 16777216"
    using zerr y(2) b(2) by linarith
  then have bound: "\<bar>z - (T + a)\<bar> \<le> (k + 1) * (129 / 16777216)"
    by (simp add: distrib_right)
  have e1: "(of_int (sum_list (map f (xs @ [x]))) :: rat) / 100 = T + a"
    by (simp add: T_def a_def add_divide_distrib)
  have e2: "(of_nat (length (xs @ [x])) :: rat) = k + 1" by (simp add: k_def)
  have e3: "(129::rat) / 2 ^ 24 = 129 / 16777216" by simp
  have "\<bar>z - of_int (sum_list (map f (xs @ [x]))) / 100\<bar>
       \<le> of_nat (length (xs @ [x])) * (129 / 2 ^ 24)"
    unfolding e1 e2 e3 by (rule bound)
  then show ?case using fin by blast
qed

section \<open>Printed amounts read back\<close>

lemma digit_cases: "d < 10 \<Longrightarrow> d \<in> {0, 1, 2, 3, 4, 5, 6, 7, 8, 9 :: nat}"
  by auto

lemma digit_char_val: "d < 10 \<Longrightarrow> of_char (''0123456789'' ! d) - 48 = (d :: nat)"
  by (drule digit_cases) (elim insertE, simp_all)

lemma digit_char_is_digit: "d < 10 \<Longrightarrow> is_digit (''0123456789'' ! d)"
  by (drule digit_cases) (elim insertE, simp_all add: is_digit_def)

lemma digits_val_snoc: "digits_val (xs @ [c]) = 10 * digits_val xs + (of_char c - 48)"
  by (simp add: digits_val_def)

lemma digits_val_digits_of: "digits_val (digits_of n) = n"
proof (induction n rule: digits_of.induct)
  case (1 n)
  show ?case
  proof (cases "n < 10")
    case True
    then show ?thesis
      using digits_val_snoc[of "[]" "''0123456789'' ! n"]
      by (simp add: digits_of.simps[of n] digit_char_val digits_val_def)
  next
    case False
    then have "digits_val (digits_of (n div 10)) = n div 10" using 1 by simp
    then show ?thesis
      using False by (simp add: digits_of.simps[of n] digits_val_snoc digit_char_val)
  qed
qed

lemma digits_of_digits: "c \<in> set (digits_of n) \<Longrightarrow> is_digit c"
proof (induction n rule: digits_of.induct)
  case (1 n)
  show ?case
  proof (cases "n < 10")
    case True
    then show ?thesis using 1(2) by (simp add: digits_of.simps[of n] digit_char_is_digit)
  next
    case False
    then show ?thesis using 1 by (auto simp add: digits_of.simps[of n] digit_char_is_digit)
  qed
qed

lemma filter_digits_of: "filter is_digit (digits_of n) = digits_of n"
  by (simp add: digits_of_digits)

lemma digits_of_nonempty: "digits_of n \<noteq> []"
  by (simp add: digits_of.simps[of n])

lemma digits_val_append_digit:
  "d < 10 \<Longrightarrow> digits_val (xs @ digits_of d) = 10 * digits_val xs + d"
  by (simp add: digits_of.simps[of d] digits_val_snoc digit_char_val)

lemma hd_digits_of: "hd (digits_of n) \<noteq> CHR ''-''"
proof -
  have "hd (digits_of n) \<in> set (digits_of n)" using digits_of_nonempty by simp
  then have "is_digit (hd (digits_of n))" by (rule digits_of_digits)
  then show ?thesis by (auto simp add: is_digit_def)
qed

lemma hundredths_split: "10 * (10 * (n div 100) + n mod 100 div 10) + n mod 10 = (n::nat)"
proof -
  define q where "q = n div 100"
  define r where "r = n mod 100"
  define d where "d = r div 10"
  define e where "e = r mod 10"
  have a: "n = 100 * q + r" by (simp add: q_def r_def)
  have b: "r = 10 * d + e" by (simp add: d_def e_def)
  have c: "n mod 10 = e" by (simp add: e_def r_def mod_mod_cancel)
  have "10 * (10 * q + d) + e = n" using a b by simp
  then show ?thesis unfolding c q_def[symmetric] r_def[symmetric] d_def[symmetric] .
qed

lemma filter_show_hundredths:
  "filter is_digit (show_hundredths neg n)
   = digits_of (n div 100) @ digits_of (n mod 100 div 10) @ digits_of (n mod 10)"
proof -
  have "\<not> is_digit CHR ''-''" "\<not> is_digit CHR ''.''" by (simp_all add: is_digit_def)
  then show ?thesis by (simp add: show_hundredths_def filter_digits_of)
qed

lemma digits_val_show_hundredths: "digits_val (filter is_digit (show_hundredths neg n)) = n"
proof -
  have d1: "n mod 100 div 10 < 10" by simp
  have d2: "n mod 10 < 10" by simp
  have "digits_val ((digits_of (n div 100) @ digits_of (n mod 100 div 10)) @ digits_of (n mod 10))
        = 10 * digits_val (digits_of (n div 100) @ digits_of (n mod 100 div 10)) + n mod 10"
    using d2 by (rule digits_val_append_digit)
  also have "digits_val (digits_of (n div 100) @ digits_of (n mod 100 div 10))
        = 10 * digits_val (digits_of (n div 100)) + n mod 100 div 10"
    using d1 by (rule digits_val_append_digit)
  finally have "digits_val ((digits_of (n div 100) @ digits_of (n mod 100 div 10)) @ digits_of (n mod 10))
        = 10 * (10 * (n div 100) + n mod 100 div 10) + n mod 10"
    by (simp only: digits_val_digits_of)
  then show ?thesis by (simp only: filter_show_hundredths hundredths_split append_assoc)
qed

lemma sign_show_hundredths: "take 1 (show_hundredths neg n) = ''-'' \<longleftrightarrow> neg"
proof (cases neg)
  case True
  then show ?thesis by (simp add: show_hundredths_def)
next
  case False
  obtain c cs where c: "digits_of (n div 100) = c # cs"
    using digits_of_nonempty by (cases "digits_of (n div 100)") auto
  then have "c \<noteq> CHR ''-''" using hd_digits_of[of "n div 100"] by simp
  then show ?thesis using False c by (simp add: show_hundredths_def)
qed

lemma read_show_hundredths:
  "read_hundredths (show_hundredths neg n) = (if neg then - int n else int n)"
  by (simp only: read_hundredths_def digits_val_show_hundredths sign_show_hundredths)

section \<open>The doubles of the scenarios\<close>


lemma fl_1_5: "fl (1 / 5) = Fin (3602879701896397 / 18014398509481984)"
  using fl_eqI [of "- 3" "1 / 5" 7205759403792794] by simp

lemma fl_3_5: "fl (3 / 5) = Fin (5404319552844595 / 9007199254740992)"
  using fl_eqI [of "- 1" "3 / 5" 5404319552844595] by simp



lemma fl_double_1_10: "fl (3602879701896397 / 36028797018963968) = Fin (3602879701896397 / 36028797018963968)"
  using fl_exact [of "- 4" "3602879701896397 / 36028797018963968" 7205759403792794] by simp

lemma fl_double_3_5: "fl (5404319552844595 / 9007199254740992) = Fin (5404319552844595 / 9007199254740992)"
  using fl_exact [of "- 1" "5404319552844595 / 9007199254740992" 5404319552844595] by simp



lemma fl_sum_3_5_1_10: "fl (25220157913274777 / 36028797018963968) = Fin (3152519739159347 / 4503599627370496)"
  using fl_eqI [of "- 1" "25220157913274777 / 36028797018963968" 6305039478318694] by simp

lemma fl_100_times_3_5: "fl (135107988821114875 / 2251799813685248) = Fin (60)"
  using fl_eqI [of "5" "135107988821114875 / 2251799813685248" 8444249301319680] by simp

lemma fl_100_times_7_10: "fl (78812993478983675 / 1125899906842624) = Fin (70)"
  using fl_eqI [of "6" "78812993478983675 / 1125899906842624" 4925812092436480] by simp







lemma fl_501_2: "fl (501 / 2) = Fin (501 / 2)"
  using fl_exact [of "7" "501 / 2" 8813685208252416] by simp

lemma fl_99_2: "fl (99 / 2) = Fin (99 / 2)"
  using fl_exact [of "5" "99 / 2" 6966505673588736] by simp

lemma fl_701_2: "fl (701 / 2) = Fin (701 / 2)"
  using fl_exact [of "8" "701 / 2" 6166061208567808] by simp

lemma fl_99999999_93: "fl (9999999993 / 100) = Fin (1677721598825595 / 16777216)"
  using fl_eqI [of "26" "9999999993 / 100" 6710886395302380] by simp

lemma fl_double_99999999_93: "fl (1677721598825595 / 16777216) = Fin (1677721598825595 / 16777216)"
  using fl_exact [of "26" "1677721598825595 / 16777216" 6710886395302380] by simp


section \<open>The claims\<close>

lemmas route_defs = post_payment_def put_payment_def delete_payment_def reconcile_created_def
  reconcile_deleted_def createPayment_def updatePayment_def deletePayment_def getInvoice_def
  getPayment_def getPaymentsByInvoice_def updateInvoice_def insertPaymentSchema_def
  insertPaymentSchema_partial_def totalPaid_of_def set_columns_def

lemmas scenario_defs = on_day_def accountant_def an_invoice_def a_payment_def pay_request_def
  amount_request_def ledger_def a_browser_def


lemmas report_defs = calculateReportData_def data_point_at_def monthsCount_of_def
  monthRevenue_of_def totalPaid_of_def setMonth_def newDate_def daysInMonth_def leap_def
  months_def show_hundredths_def digits_of.simps

subsection \<open>Reading the ledger after a write\<close>

lemma find_holds: "find P xs = Some x \<Longrightarrow> P x"
  by (induction xs) (auto split: if_splits)

lemma getInvoice_id: "getInvoice s i = Some iv \<Longrightarrow> inv_id iv = i"
  unfolding getInvoice_def by (drule find_holds) simp

lemma getPayment_id: "getPayment s i = Some p \<Longrightarrow> pay_id p = i"
  unfolding getPayment_def by (drule find_holds) simp

lemma find_map_status:
  "find (\<lambda>x. inv_id x = i) (map (\<lambda>x. if inv_id x = j then x\<lparr>inv_status := st\<rparr> else x) xs)
   = map_option (\<lambda>x. if inv_id x = j then x\<lparr>inv_status := st\<rparr> else x)
       (find (\<lambda>x. inv_id x = i) xs)"
  by (induction xs) auto

lemma getInvoice_updateInvoice:
  "getInvoice (updateInvoice s j st) i
   = map_option (\<lambda>x. if i = j then x\<lparr>inv_status := st\<rparr> else x) (getInvoice s i)"
proof (cases "getInvoice s i")
  case None
  then show ?thesis by (simp add: getInvoice_def updateInvoice_def find_map_status)
next
  case (Some iv)
  then have "inv_id iv = i" by (rule getInvoice_id)
  then show ?thesis using Some by (simp add: getInvoice_def updateInvoice_def find_map_status)
qed

lemma payments_updateInvoice [simp]: "payments (updateInvoice s j st) = payments s"
  by (simp add: updateInvoice_def)

lemma getPaymentsByInvoice_updateInvoice [simp]:
  "getPaymentsByInvoice (updateInvoice s j st) i = getPaymentsByInvoice s i"
  by (simp add: getPaymentsByInvoice_def)

lemma getInvoice_createPayment [simp]: "getInvoice (snd (createPayment s d)) i = getInvoice s i"
  by (simp add: getInvoice_def createPayment_def Let_def)

lemma getInvoice_deletePayment [simp]: "getInvoice (deletePayment s p) i = getInvoice s i"
  by (simp add: getInvoice_def deletePayment_def)

lemma getInvoice_updatePayment [simp]: "getInvoice (snd (updatePayment s p d)) i = getInvoice s i"
  by (simp add: getInvoice_def updatePayment_def Let_def)

lemma getInvoice_reconcile_created:
  "getInvoice (reconcile_created s invoice payment) i = getInvoice s i
   \<or> getInvoice (reconcile_created s invoice payment) i
       = map_option (\<lambda>x. x\<lparr>inv_status := Paid\<rparr>) (getInvoice s i)"
  by (cases "getInvoice s i") (auto simp add: reconcile_created_def Let_def getInvoice_updateInvoice)

lemma getInvoice_post_payment:
  "getInvoice (snd (post_payment u body s)) i = getInvoice s i
   \<or> getInvoice (snd (post_payment u body s)) i
       = map_option (\<lambda>x. x\<lparr>inv_status := Paid\<rparr>) (getInvoice s i)"
proof -
  have *: "getInvoice (reconcile_created (snd (createPayment s d)) invoice (fst (createPayment s d))) i
             = getInvoice s i
         \<or> getInvoice (reconcile_created (snd (createPayment s d)) invoice (fst (createPayment s d))) i
             = map_option (\<lambda>x. x\<lparr>inv_status := Paid\<rparr>) (getInvoice s i)" for d invoice
    using getInvoice_reconcile_created[of "snd (createPayment s d)" invoice "fst (createPayment s d)" i]
    by simp
  show ?thesis
    using * by (auto simp add: post_payment_def split_beta split: option.splits field.splits)
qed

lemma invoices_put_payment: "invoices (snd (put_payment u pid body s)) = invoices s"
  by (simp add: put_payment_def updatePayment_def Let_def split: option.splits)

lemma getInvoice_put_payment: "getInvoice (snd (put_payment u pid body s)) i = getInvoice s i"
  by (simp add: getInvoice_def invoices_put_payment)

lemma getInvoice_reconcile_deleted_overdue:
  assumes "getInvoice s i = Some iv" "inv_status iv = Overdue"
  shows "getInvoice (reconcile_deleted s payment) i = Some iv"
proof (cases "getInvoice s (pay_invoiceId payment)")
  case None
  then show ?thesis using assms by (simp add: reconcile_deleted_def)
next
  case (Some invoice)
  have id: "inv_id invoice = pay_invoiceId payment" using Some by (rule getInvoice_id)
  show ?thesis
  proof (cases "pay_invoiceId payment = i")
    case True
    then have "invoice = iv" using Some assms(1) by simp
    then show ?thesis using Some assms by (simp add: reconcile_deleted_def)
  next
    case False
    then show ?thesis using Some assms id
      by (simp add: reconcile_deleted_def Let_def getInvoice_updateInvoice)
  qed
qed

section \<open>Sums of amounts and the report chart\<close>

lemma upt_3: "[0..<3] = [0, 1, 2]" by (simp add: upt_rec)

lemma data_point_at_fields:
  assumes "now env' = now env" and "behindUTC env' = behindUTC env"
  shows "dp_name (data_point_at env' invs pays d i) = dp_name (data_point_at env invs pays d i)"
    and "dp_revenue (data_point_at env' invs pays d i) = dp_revenue (data_point_at env invs pays d i)"
    and "dp_payments (data_point_at env' invs pays d i) = dp_payments (data_point_at env invs pays d i)"
  using assms by (simp_all add: data_point_at_def Let_def)

lemma toFixed2_exact:
  assumes near: "\<bar>y - of_int c / 100\<bar> < 1 / 200" and c: "\<bar>c\<bar> \<le> 10 ^ 22"
  shows "\<exists>s. toFixed2 (Fin y) = Some s \<and> read_hundredths s = c"
proof -
  define a where "a = (of_int \<bar>c\<bar> :: rat)"
  have a: "\<bar>(of_int c :: rat)\<bar> = a" by (simp add: a_def)
  have "\<bar>\<bar>y\<bar> - \<bar>(of_int c :: rat) / 100\<bar>\<bar> \<le> \<bar>y - of_int c / 100\<bar>" by (rule abs_triangle_ineq3)
  then have n1: "\<bar>\<bar>y\<bar> - a / 100\<bar> < 1 / 200" using near a by simp
  then have "a \<le> \<bar>y\<bar> * 100 + 1 / 2" "\<bar>y\<bar> * 100 + 1 / 2 < a + 1" by linarith+
  then have fl: "\<lfloor>\<bar>y\<bar> * 100 + 1 / 2\<rfloor> = \<bar>c\<bar>"
    unfolding a_def by (intro floor_unique) simp_all
  have "a \<le> of_int (10 ^ 22)" unfolding a_def using c by (simp only: of_int_le_iff)
  then have "a \<le> 10000000000000000000000" by simp
  then have "\<bar>y\<bar> < 1000000000000000000000" using n1 by linarith
  then have small: "\<not> 10 ^ 21 \<le> \<bar>y\<bar>" by simp
  have sgn: "(if y < 0 then - int (nat \<bar>c\<bar>) else int (nat \<bar>c\<bar>)) = c"
  proof -
    consider "c = 0" | "0 < c" | "c < 0" by linarith
    then show ?thesis
    proof cases
      case 1 then show ?thesis by simp
    next
      case 2
      then have "(1::rat) \<le> of_int c" by simp
      then have "0 \<le> y" using near by linarith
      then show ?thesis using 2 by simp
    next
      case 3
      then have "c \<le> - 1" by simp
      then have "(of_int c :: rat) \<le> of_int (- 1)" by (simp only: of_int_le_iff)
      then have "(of_int c :: rat) \<le> - 1" by simp
      then have "y < 0" using near by linarith
      then show ?thesis using 3 by simp
    qed
  qed
  have "toFixed2 (Fin y) = Some (show_hundredths (y < 0) (nat \<bar>c\<bar>))"
    using small fl by simp
  moreover have "read_hundredths (show_hundredths (y < 0) (nat \<bar>c\<bar>)) = c"
    using sgn by (simp only: read_show_hundredths)
  ultimately show ?thesis by blast
qed

lemma monthRevenue_running: "monthRevenue_of xs = running_sum inv_amount xs"
  by (simp add: monthRevenue_of_def running_sum_def)

lemma totalPaid_running: "totalPaid_of xs = running_sum pay_amount xs"
  by (simp add: totalPaid_of_def running_sum_def)

lemma running_sum_half_cent:
  fixes f :: "'a \<Rightarrow> decimal"
  assumes "\<And>x. x \<in> set xs \<Longrightarrow> \<bar>f x\<bar> \<le> 10 ^ 10" and "length xs \<le> 600"
  shows "\<exists>y. running_sum f xs = Fin y \<and> \<bar>y - of_int (sum_list (map f xs)) / 100\<bar> \<le> 19 / 4096"
proof -
  obtain y where y: "running_sum f xs = Fin y"
    "\<bar>y - of_int (sum_list (map f xs)) / 100\<bar> \<le> of_nat (length xs) * (129 / 2 ^ 24)"
    using running_sum_error[of xs f] assms by blast
  have "(of_nat (length xs) :: rat) \<le> 600" using assms(2) by simp
  then have "(of_nat (length xs) :: rat) * (129 / 2 ^ 24) \<le> 600 * (129 / 2 ^ 24)"
    by (intro mult_right_mono) simp_all
  also have "\<dots> \<le> 19 / 4096" by simp
  finally show ?thesis using y by (intro exI[of _ y]) simp
qed

lemma printed_sum_exact:
  fixes f :: "'a \<Rightarrow> decimal"
  assumes "\<And>x. x \<in> set xs \<Longrightarrow> \<bar>f x\<bar> \<le> 10 ^ 10" and "length xs \<le> 600"
  shows "\<exists>s. toFixed2 (running_sum f xs) = Some s \<and> read_hundredths s = sum_list (map f xs)"
proof -
  obtain y where y: "running_sum f xs = Fin y"
    "\<bar>y - of_int (sum_list (map f xs)) / 100\<bar> \<le> 19 / 4096"
    using running_sum_half_cent[of xs f] assms by blast
  then have near: "\<bar>y - of_int (sum_list (map f xs)) / 100\<bar> < 1 / 200" by simp
  have "\<bar>sum_list (map f xs)\<bar> \<le> int (length xs) * 10 ^ 10"
    using assms(1) by (intro sum_list_abs_le) simp
  also have "\<dots> \<le> 600 * 10 ^ 10" using assms(2) by simp
  finally have "\<bar>sum_list (map f xs)\<bar> \<le> 10 ^ 22" by simp
  then show ?thesis using toFixed2_exact[OF near] y(1) by simp
qed

lemma sum_list_split:
  fixes f :: "'a \<Rightarrow> int"
  shows "sum_list (map f (filter P xs)) + sum_list (map f (filter (\<lambda>x. \<not> P x) xs))
         = sum_list (map f xs)"
  by (induction xs) simp_all


lemma dp_revenue_at:
  "dp_revenue (data_point_at env invs pays d i)
   = toFixed2 (running_sum inv_amount
       (filter (\<lambda>invoice.
            jd_month (newDate (behindUTC env) (inv_date invoice))
              = jd_month (setMonth d (int (jd_month d) + int i))
          \<and> jd_year (newDate (behindUTC env) (inv_date invoice))
              = jd_year (setMonth d (int (jd_month d) + int i))) invs))"
  by (simp add: data_point_at_def Let_def monthRevenue_running)

lemma foldl_whole:
  assumes g: "\<And>x. x \<in> set xs \<Longrightarrow> g x = Fin (of_int m)" and m: "0 \<le> m" and s: "0 \<le> s"
    and b: "s + int (length xs) * m \<le> 2 ^ 53"
  shows "foldl (\<lambda>acc v. js_add acc (g v)) (Fin (of_int s)) xs
         = Fin (of_int (s + int (length xs) * m))"
  using g s b
proof (induction xs arbitrary: s)
  case Nil
  then show ?case by simp
next
  case (Cons x xs)
  have gx: "g x = Fin (of_int m)" using Cons.prems(1) by simp
  have le: "s + m \<le> s + int (length (x # xs)) * m" using m by (simp add: algebra_simps)
  then have "\<bar>s + m\<bar> \<le> 2 ^ 53" using Cons.prems m by linarith
  then have "fl (of_int (s + m)) = Fin (of_int (s + m))" by (rule fl_of_int)
  then have step: "js_add (Fin (of_int s)) (g x) = Fin (of_int (s + m))" by (simp add: gx)
  have "foldl (\<lambda>acc v. js_add acc (g v)) (Fin (of_int (s + m))) xs
        = Fin (of_int (s + m + int (length xs) * m))"
    using Cons.prems m by (intro Cons.IH) (simp_all add: algebra_simps)
  then show ?case using step by (simp add: algebra_simps)
qed

lemma foldl_binade:
  assumes g: "\<And>x. x \<in> set xs \<Longrightarrow> g x = Fin A" and A: "0 < A" and r0: "0 \<le> r"
    and r: "\<bar>A * 2 ^ 16 - of_int r\<bar> < 1 / 2"
    and lo: "2 ^ 36 \<le> (of_int K :: rat) / 2 ^ 16"
    and hi: "of_int (K + int (length xs) * r) / 2 ^ 16 + A < 2 ^ 37"
  shows "foldl (\<lambda>acc v. js_add acc (g v)) (Fin (of_int K / 2 ^ 16)) xs
         = Fin (of_int (K + int (length xs) * r) / 2 ^ 16)"
  using g lo hi
proof (induction xs arbitrary: K)
  case Nil
  then show ?case by simp
next
  case (Cons x xs)
  let ?x = "(of_int K :: rat) / 2 ^ 16 + A"
  have gx: "g x = Fin A" using Cons.prems(1) by simp
  have mono: "(of_int K :: rat) \<le> of_int (K + int (length (x # xs)) * r)"
    using r0 by simp
  have x1: "2 powi 36 \<le> ?x" using Cons.prems(2) A by simp
  have "?x \<le> of_int (K + int (length (x # xs)) * r) / 2 ^ 16 + A"
    using mono by (simp add: divide_right_mono)
  then have "?x < 2 ^ 37" using Cons.prems(3) by (rule le_less_trans)
  then have x2: "?x < 2 powi (36 + 1)" by simp
  have "?x / 2 powi (36 - 52) - of_int (K + r) = A * 2 ^ 16 - of_int r"
    by (simp add: power_int_minus_divide algebra_simps)
  then have x3: "\<bar>?x / 2 powi (36 - 52) - of_int (K + r)\<bar> < 1 / 2" using r by simp
  have "fl ?x = Fin (of_int (K + r) * 2 powi (36 - 52))"
    using x1 x2 _ _ x3 by (rule fl_eqI) simp_all
  then have step: "js_add (Fin (of_int K / 2 ^ 16)) (g x) = Fin (of_int (K + r) / 2 ^ 16)"
    by (simp add: gx power_int_minus_divide)
  have lo': "2 ^ 36 \<le> (of_int (K + r) :: rat) / 2 ^ 16"
  proof -
    have "(of_int K :: rat) \<le> of_int (K + r)" using r0 by simp
    then have "(of_int K :: rat) / 2 ^ 16 \<le> of_int (K + r) / 2 ^ 16" by (simp add: divide_right_mono)
    then show ?thesis using Cons.prems(2) by linarith
  qed
  have eq: "K + r + int (length xs) * r = K + int (length (x # xs)) * r" by (simp add: algebra_simps)
  have "foldl (\<lambda>acc v. js_add acc (g v)) (Fin (of_int (K + r) / 2 ^ 16)) xs
        = Fin (of_int (K + r + int (length xs) * r) / 2 ^ 16)"
    using lo' Cons.prems(1,3) by (intro Cons.IH) (simp_all only: eq list.set_intros)
  then show ?case using step by (simp only: eq foldl_Cons)
qed

lemma amount_of_many: "x \<in> set (many_invoices i j a) \<Longrightarrow> inv_amount x = a"
  by (auto simp add: many_invoices_def an_invoice_def)

lemma length_many: "length (many_invoices i j a) = j - i"
  by (simp add: many_invoices_def)

lemma sum_688_whole:
  "monthRevenue_of (many_invoices 1001 1689 9999999900) = Fin 68799999312"
proof -
  have "foldl (\<lambda>acc v. js_add acc (Number (inv_amount v))) (Fin (of_int 0))
          (many_invoices 1001 1689 9999999900)
        = Fin (of_int (0 + int (length (many_invoices 1001 1689 9999999900)) * 99999999))"
    by (rule foldl_whole) (simp_all add: amount_of_many length_many Number_def)
  then show ?thesis by (simp add: monthRevenue_of_def length_many)
qed

lemma sum_then_cents:
  assumes "n = 682 \<or> n = 683"
  shows "monthRevenue_of (many_invoices 1001 1689 9999999900 @ many_invoices 1689 (1689 + n) 9999999993)
         = Fin (of_int (4508876754911232 + int n * 6553599995412) / 2 ^ 16)"
proof -
  let ?ys = "many_invoices 1689 (1689 + n) 9999999993"
  have len: "length ?ys = n" by (simp add: length_many)
  have start: "Fin 68799999312 = Fin (of_int 4508876754911232 / 2 ^ 16)" by simp
  have "foldl (\<lambda>acc v. js_add acc (Number (inv_amount v))) (Fin (of_int 4508876754911232 / 2 ^ 16)) ?ys
        = Fin (of_int (4508876754911232 + int (length ?ys) * 6553599995412) / 2 ^ 16)"
  proof (rule foldl_binade[where A = "1677721598825595 / 16777216"])
    show "Number (inv_amount x) = Fin (1677721598825595 / 16777216)" if "x \<in> set ?ys" for x
      using that by (simp add: amount_of_many Number_def fl_99999999_93)
    show "of_int (4508876754911232 + int (length ?ys) * 6553599995412) / 2 ^ 16
            + 1677721598825595 / 16777216 < (2::rat) ^ 37"
      unfolding len using assms by auto
  qed simp_all
  then show ?thesis
    using sum_688_whole unfolding len
    by (simp only: monthRevenue_of_def foldl_append start)
qed


lemma date_of_an_invoice:
  "newDate False (inv_date (an_invoice n a st)) = \<lparr>jd_year = 2024, jd_month = 2, jd_date = 15\<rparr>"
  by (simp add: an_invoice_def newDate_def on_day_def)

lemma filter_many:
  "filter (\<lambda>invoice. jd_month (newDate False (inv_date invoice)) = m
                    \<and> jd_year (newDate False (inv_date invoice)) = y) (many_invoices i j a)
   = (if m = 2 \<and> y = 2024 then many_invoices i j a else [])"
  by (auto simp add: many_invoices_def filter_map comp_def date_of_an_invoice)

lemma monthRevenue_of_Nil: "monthRevenue_of [] = Fin 0"
  by (simp add: monthRevenue_of_def)

lemma many_invoices_last:
  "many_invoices 1689 2371 a @ [an_invoice 2371 a Pending] = many_invoices 1689 2372 a"
proof -
  have "[1689..<Suc 2371] = [1689..<2371] @ [2371]" by (rule upt_Suc_append) simp
  moreover have "Suc 2371 = 2372" by simp
  ultimately have "[1689..<2372] = [1689..<2371] @ [2371]" by simp
  then show ?thesis by (simp add: many_invoices_def)
qed

lemma revenue_1371:
  "monthRevenue_of (many_invoices 1001 1689 9999999900 @ many_invoices 1689 2371 9999999993
                     @ [an_invoice 2371 9999999993 Pending])
   = Fin (2246246387944407 / 16384)"
  using sum_then_cents[of 683] by (simp add: many_invoices_last)

lemma revenue_1370:
  "monthRevenue_of (many_invoices 1001 1689 9999999900 @ many_invoices 1689 2371 9999999993)
   = Fin (1122303993972777 / 8192)"
  using sum_then_cents[of 682] by simp

lemma revenue_1:
  "monthRevenue_of [an_invoice 2371 9999999993 Pending] = Fin (1677721598825595 / 16777216)"
  by (simp add: monthRevenue_of_def an_invoice_def Number_def fl_99999999_93 fl_double_99999999_93)

lemmas report_eval = calculateReportData_def data_point_at_def monthsCount_of_def
  totalPaid_of_def setMonth_def daysInMonth_def leap_def months_def
  show_hundredths_def digits_of.simps a_browser_def Let_def upt_3
  filter_many date_of_an_invoice monthRevenue_of_Nil

subsection \<open>C1: the total paid when a payment is created\<close>

text \<open>
  C1 says that creating a payment sums the amounts of the payments of the invoice, each
  counted once, and marks the invoice paid when that total reaches the invoice amount:
  a payment of 60.00 on an invoice of 100.00 without payments leaves it pending.  The
  route reads the payments of the invoice after the insert, so the list already holds the
  new payment, and then appends the new payment again: the total is 120.00 and the
  invoice is marked paid, with 60.00 received.
\<close>

theorem post_payment_counts_new_payment_twice:
  "getInvoice (snd (post_payment (Some accountant) (pay_request 1 6000)
       (ledger [an_invoice 1 10000 Pending] []))) 1 = Some (an_invoice 1 10000 Paid)
   \<and> map pay_amount (payments (snd (post_payment (Some accountant) (pay_request 1 6000)
       (ledger [an_invoice 1 10000 Pending] [])))) = [6000]"
  by (simp add: route_defs scenario_defs Number_def Let_def)

subsection \<open>C2: deleting a payment of a paid invoice\<close>




subsection \<open>C3: updating the amount of a payment\<close>

text \<open>
  C3 says that after a payment is updated the status of its invoice is the one that the
  rule derives from the payments as they are then.  The update route writes the payment
  and nothing else, where the create and delete routes go on to the invoice: raising the
  only payment of a pending invoice of 100.00 from 40.00 to 100.00 leaves the invoice
  pending.
\<close>

theorem put_payment_leaves_status:
  "put_payment (Some accountant) 1 (amount_request 10000)
     (ledger [an_invoice 1 10000 Pending] [a_payment 1 1 4000])
   = (Inr (Some (a_payment 1 1 10000)),
      ledger [an_invoice 1 10000 Pending] [a_payment 1 1 10000])"
  by (simp add: route_defs scenario_defs Let_def)

subsection \<open>C4: amounts in different currencies\<close>


lemma insertPaymentSchema_other [simp]:
  "insertPaymentSchema (body\<lparr>b_other := x\<rparr>) uid = insertPaymentSchema body uid"
  by (simp add: insertPaymentSchema_def split: field.splits)


subsection \<open>C5: overdue invoices\<close>

text \<open>
  C5: an overdue invoice is never turned to pending by the create, update or delete route
  of a payment, whatever the request; creating a payment can turn it to paid, and the
  other two routes leave it as it is.
\<close>

theorem overdue_never_reopened:
  assumes "getInvoice s i = Some iv" and "inv_status iv = Overdue"
  shows "(getInvoice (snd (post_payment u1 body1 s)) i = Some iv
          \<or> getInvoice (snd (post_payment u1 body1 s)) i = Some (iv\<lparr>inv_status := Paid\<rparr>))
       \<and> getInvoice (snd (put_payment u2 pid2 body2 s)) i = Some iv
       \<and> getInvoice (snd (delete_payment u3 pid3 s)) i = Some iv"
proof (intro conjI)
  show "getInvoice (snd (post_payment u1 body1 s)) i = Some iv
          \<or> getInvoice (snd (post_payment u1 body1 s)) i = Some (iv\<lparr>inv_status := Paid\<rparr>)"
    using getInvoice_post_payment[of u1 body1 s i] assms(1) by simp
  show "getInvoice (snd (put_payment u2 pid2 body2 s)) i = Some iv"
    using assms(1) by (simp add: getInvoice_put_payment)
  have "getInvoice (reconcile_deleted (deletePayment s pid3) payment) i = Some iv" for payment
    using assms by (intro getInvoice_reconcile_deleted_overdue) simp_all
  then show "getInvoice (snd (delete_payment u3 pid3 s)) i = Some iv"
    using assms(1) by (simp add: delete_payment_def split: option.splits)
qed

theorem overdue_never_reopened_witness:
  "getInvoice (ledger [an_invoice 1 10000 Overdue] [a_payment 1 1 4000]) 1
     = Some (an_invoice 1 10000 Overdue)
   \<and> inv_status (an_invoice 1 10000 Overdue) = Overdue
   \<and> (getInvoice (snd (post_payment (Some accountant) (pay_request 1 1000)
           (ledger [an_invoice 1 10000 Overdue] [a_payment 1 1 4000]))) 1
         = Some (an_invoice 1 10000 Overdue)
       \<or> getInvoice (snd (post_payment (Some accountant) (pay_request 1 1000)
           (ledger [an_invoice 1 10000 Overdue] [a_payment 1 1 4000]))) 1
         = Some (an_invoice 1 10000 Paid))
   \<and> getInvoice (snd (put_payment (Some accountant) 1 (amount_request 0)
         (ledger [an_invoice 1 10000 Overdue] [a_payment 1 1 4000]))) 1
       = Some (an_invoice 1 10000 Overdue)
   \<and> getInvoice (snd (delete_payment (Some accountant) 1
         (ledger [an_invoice 1 10000 Overdue] [a_payment 1 1 4000]))) 1
       = Some (an_invoice 1 10000 Overdue)"
proof -
  let ?s = "ledger [an_invoice 1 10000 Overdue] [a_payment 1 1 4000]"
  have h1: "getInvoice ?s 1 = Some (an_invoice 1 10000 Overdue)"
    by (simp add: getInvoice_def scenario_defs)
  have h2: "inv_status (an_invoice 1 10000 Overdue) = Overdue"
    by (simp add: scenario_defs)
  have paid: "an_invoice 1 10000 Overdue\<lparr>inv_status := Paid\<rparr> = an_invoice 1 10000 Paid"
    by (simp add: scenario_defs)
  show ?thesis
    using h1 h2
      overdue_never_reopened [OF h1 h2, where ?u1.0 = "Some accountant"
        and ?body1.0 = "pay_request 1 1000" and ?u2.0 = "Some accountant" and ?pid2.0 = 1
        and ?body2.0 = "amount_request 0" and ?u3.0 = "Some accountant" and ?pid3.0 = 1]
    by (simp only: paid)
qed

subsection \<open>C6: running a pass again\<close>

text \<open>
  C6: the pass that follows the creation of a payment and the pass that follows a deletion
  are idempotent.  Run a second time on the ledger that the first run left, with the
  invoice read again and the payments unchanged, each pass returns that ledger.
\<close>

theorem reconciliation_idempotent:
  assumes "getInvoice s (inv_id iv) = Some iv"
    and "getInvoice (reconcile_created s iv p) (inv_id iv) = Some inv1"
  shows "reconcile_created (reconcile_created s iv p) inv1 p = reconcile_created s iv p
       \<and> reconcile_deleted (reconcile_deleted s' q) q = reconcile_deleted s' q"
proof
  show "reconcile_created (reconcile_created s iv p) inv1 p = reconcile_created s iv p"
  proof (cases "js_ge (totalPaid_of (getPaymentsByInvoice s (inv_id iv) @ [p])) (Number (inv_amount iv))
                \<and> inv_status iv \<noteq> Paid")
    case True
    then have s1: "reconcile_created s iv p = updateInvoice s (inv_id iv) Paid"
      by (simp add: reconcile_created_def Let_def)
    then have "inv1 = iv\<lparr>inv_status := Paid\<rparr>"
      using assms by (simp add: getInvoice_updateInvoice)
    then show ?thesis using s1 by (simp add: reconcile_created_def Let_def)
  next
    case False
    then have s1: "reconcile_created s iv p = s"
      by (auto simp add: reconcile_created_def Let_def)
    then have "inv1 = iv" using assms by simp
    then show ?thesis using s1 by simp
  qed
  show "reconcile_deleted (reconcile_deleted s' q) q = reconcile_deleted s' q"
  proof (cases "getInvoice s' (pay_invoiceId q)")
    case None
    then show ?thesis by (simp add: reconcile_deleted_def)
  next
    case (Some invoice)
    have id: "inv_id invoice = pay_invoiceId q" using Some by (rule getInvoice_id)
    show ?thesis
    proof (cases "inv_status invoice = Paid
        \<and> js_lt (totalPaid_of (getPaymentsByInvoice s' (inv_id invoice))) (Number (inv_amount invoice))")
      case True
      then have s1: "reconcile_deleted s' q = updateInvoice s' (inv_id invoice) Pending"
        using Some by (simp add: reconcile_deleted_def Let_def)
      have "getInvoice (updateInvoice s' (inv_id invoice) Pending) (pay_invoiceId q)
              = Some (invoice\<lparr>inv_status := Pending\<rparr>)"
        using Some id by (simp add: getInvoice_updateInvoice)
      then show ?thesis unfolding s1 by (simp add: reconcile_deleted_def)
    next
      case False
      then have s1: "reconcile_deleted s' q = s'"
        using Some by (auto simp add: reconcile_deleted_def Let_def)
      then show ?thesis by simp
    qed
  qed
qed

theorem reconciliation_idempotent_witness:
  "getInvoice (ledger [an_invoice 1 10000 Pending] [a_payment 1 1 10000]) 
       (inv_id (an_invoice 1 10000 Pending)) = Some (an_invoice 1 10000 Pending)
   \<and> getInvoice (reconcile_created (ledger [an_invoice 1 10000 Pending] [a_payment 1 1 10000])
         (an_invoice 1 10000 Pending) (a_payment 1 1 10000))
       (inv_id (an_invoice 1 10000 Pending)) = Some (an_invoice 1 10000 Paid)
   \<and> reconcile_created
         (reconcile_created (ledger [an_invoice 1 10000 Pending] [a_payment 1 1 10000])
            (an_invoice 1 10000 Pending) (a_payment 1 1 10000))
         (an_invoice 1 10000 Paid) (a_payment 1 1 10000)
       = ledger [an_invoice 1 10000 Paid] [a_payment 1 1 10000]
   \<and> reconcile_deleted (reconcile_deleted (ledger [an_invoice 1 10000 Paid] [])
         (a_payment 1 1 10000)) (a_payment 1 1 10000)
       = ledger [an_invoice 1 10000 Pending] []"
proof -
  let ?s = "ledger [an_invoice 1 10000 Pending] [a_payment 1 1 10000]"
  have h1: "getInvoice ?s (inv_id (an_invoice 1 10000 Pending)) = Some (an_invoice 1 10000 Pending)"
    by (simp add: getInvoice_def scenario_defs)
  have r1: "reconcile_created ?s (an_invoice 1 10000 Pending) (a_payment 1 1 10000)
              = ledger [an_invoice 1 10000 Paid] [a_payment 1 1 10000]"
    by (simp add: route_defs scenario_defs Let_def Number_def)
  have h2: "getInvoice (reconcile_created ?s (an_invoice 1 10000 Pending) (a_payment 1 1 10000))
              (inv_id (an_invoice 1 10000 Pending)) = Some (an_invoice 1 10000 Paid)"
    unfolding r1 by (simp add: getInvoice_def scenario_defs)
  have r2: "reconcile_deleted (ledger [an_invoice 1 10000 Paid] []) (a_payment 1 1 10000)
              = ledger [an_invoice 1 10000 Pending] []"
    by (simp add: route_defs scenario_defs Let_def Number_def)
  show ?thesis
    using h1 h2 r1 r2
      reconciliation_idempotent [OF h1 h2, where s' = "ledger [an_invoice 1 10000 Paid] []"
        and q = "a_payment 1 1 10000"]
    by simp
qed

subsection \<open>C7: from a decimal amount to minor units\<close>



subsection \<open>C8: the dashboard statistics\<close>



subsection \<open>C9: the revenue of a month as a sum over the invoices\<close>

text \<open>
  C9 says that the revenue of a month for a set of invoices is the sum of the revenues of
  the month for the two parts of any split of the set.  The revenue is a running sum of
  doubles printed with two decimals: for 688 invoices of 99,999,999.00 followed by 683
  invoices of 99,999,999.93, all of March 2024, the revenue of the month is
  137099999264.18; the first 1370 of them give 136999999264.26 and the last one gives
  99999999.93, which add up to 137099999264.19.
\<close>

theorem bucket_revenue_counterexample:
  "map_option (map dp_revenue)
     (calculateReportData (a_browser (Fin 0))
        (Some (many_invoices 1001 1689 9999999900 @ many_invoices 1689 2371 9999999993
                 @ [an_invoice 2371 9999999993 Pending]))
        (Some []) False False ''last_3_months'')
     = Some [Some ''0.00'', Some ''0.00'', Some ''137099999264.18'']
   \<and> map_option (map dp_revenue)
     (calculateReportData (a_browser (Fin 0))
        (Some (many_invoices 1001 1689 9999999900 @ many_invoices 1689 2371 9999999993))
        (Some []) False False ''last_3_months'')
     = Some [Some ''0.00'', Some ''0.00'', Some ''136999999264.26'']
   \<and> map_option (map dp_revenue)
     (calculateReportData (a_browser (Fin 0))
        (Some [an_invoice 2371 9999999993 Pending])
        (Some []) False False ''last_3_months'')
     = Some [Some ''0.00'', Some ''0.00'', Some ''99999999.93'']
   \<and> read_hundredths ''136999999264.26'' + read_hundredths ''99999999.93''
       \<noteq> read_hundredths ''137099999264.18''"
proof (intro conjI)
  show "map_option (map dp_revenue)
     (calculateReportData (a_browser (Fin 0))
        (Some (many_invoices 1001 1689 9999999900 @ many_invoices 1689 2371 9999999993
                 @ [an_invoice 2371 9999999993 Pending]))
        (Some []) False False ''last_3_months'')
     = Some [Some ''0.00'', Some ''0.00'', Some ''137099999264.18'']"
    by (simp add: report_eval revenue_1371)
  show "map_option (map dp_revenue)
     (calculateReportData (a_browser (Fin 0))
        (Some (many_invoices 1001 1689 9999999900 @ many_invoices 1689 2371 9999999993))
        (Some []) False False ''last_3_months'')
     = Some [Some ''0.00'', Some ''0.00'', Some ''136999999264.26'']"
    by (simp add: report_eval revenue_1370)
  show "map_option (map dp_revenue)
     (calculateReportData (a_browser (Fin 0))
        (Some [an_invoice 2371 9999999993 Pending])
        (Some []) False False ''last_3_months'')
     = Some [Some ''0.00'', Some ''0.00'', Some ''99999999.93'']"
    by (simp add: report_eval revenue_1)
  show "read_hundredths ''136999999264.26'' + read_hundredths ''99999999.93''
       \<noteq> read_hundredths ''137099999264.18''"
    by (simp add: read_hundredths_def is_digit_def digits_val_def)
qed

text \<open>
  C9 as amended: for at most 600 invoices, each of an amount of at most 100,000,000.00 in
  absolute value, and for every month of the chart, the revenues printed for the two parts
  of any split of the invoices add up to the revenue printed for all of them; and three
  invoices of March 2024 of 100.00, 250.50 and 49.50 give the revenue 400.00 for that month.
\<close>

theorem bucket_revenue_additive:
  assumes amounts: "\<And>x. x \<in> set invs \<Longrightarrow> \<bar>inv_amount x\<bar> \<le> 10 ^ 10"
    and size: "length invs \<le> 600"
  shows "(\<exists>a b c. dp_revenue (data_point_at env (filter P invs) pays1 d i) = Some a
            \<and> dp_revenue (data_point_at env (filter (\<lambda>x. \<not> P x) invs) pays2 d i) = Some b
            \<and> dp_revenue (data_point_at env invs pays3 d i) = Some c
            \<and> read_hundredths a + read_hundredths b = read_hundredths c)
       \<and> map_option (map dp_revenue)
           (calculateReportData (a_browser r)
              (Some [an_invoice 1 10000 Pending, an_invoice 2 25050 Paid, an_invoice 3 4950 Overdue])
              (Some []) False False ''last_3_months'')
         = Some [Some ''0.00'', Some ''0.00'', Some ''400.00'']"
proof
  define Q where "Q = (\<lambda>invoice :: invoice.
       jd_month (newDate (behindUTC env) (inv_date invoice))
         = jd_month (setMonth d (int (jd_month d) + int i))
     \<and> jd_year (newDate (behindUTC env) (inv_date invoice))
         = jd_year (setMonth d (int (jd_month d) + int i)))"
  define M where "M = filter Q invs"
  have rev: "dp_revenue (data_point_at env xs pays d i) = toFixed2 (running_sum inv_amount (filter Q xs))"
    for xs pays
    unfolding Q_def by (rule dp_revenue_at)
  have sub: "\<bar>inv_amount x\<bar> \<le> 10 ^ 10" if "x \<in> set (filter R M)" for x R
    using that amounts by (simp add: M_def)
  have len: "length (filter R M) \<le> 600" for R
  proof -
    have "length (filter R M) \<le> length M" by simp
    also have "\<dots> \<le> length invs" by (simp add: M_def)
    finally show ?thesis using size by simp
  qed
  have eqA: "filter Q (filter P invs) = filter P M"
    by (simp add: M_def conj_commute)
  have eqB: "filter Q (filter (\<lambda>x. \<not> P x) invs) = filter (\<lambda>x. \<not> P x) M"
    by (simp add: M_def conj_commute)
  have eqC: "filter Q invs = filter (\<lambda>x. True) M" by (simp add: M_def)
  obtain a where a: "toFixed2 (running_sum inv_amount (filter P M)) = Some a"
    "read_hundredths a = sum_list (map inv_amount (filter P M))"
    using printed_sum_exact[of "filter P M" inv_amount] sub len by blast
  obtain b where b: "toFixed2 (running_sum inv_amount (filter (\<lambda>x. \<not> P x) M)) = Some b"
    "read_hundredths b = sum_list (map inv_amount (filter (\<lambda>x. \<not> P x) M))"
    using printed_sum_exact[of "filter (\<lambda>x. \<not> P x) M" inv_amount] sub len by blast
  obtain c where c: "toFixed2 (running_sum inv_amount (filter (\<lambda>x. True) M)) = Some c"
    "read_hundredths c = sum_list (map inv_amount (filter (\<lambda>x. True) M))"
    using printed_sum_exact[of "filter (\<lambda>x. True) M" inv_amount] sub len by blast
  have "read_hundredths a + read_hundredths b = read_hundredths c"
    using a(2) b(2) c(2) sum_list_split[of inv_amount P M] by simp
  then show "\<exists>a b c. dp_revenue (data_point_at env (filter P invs) pays1 d i) = Some a
            \<and> dp_revenue (data_point_at env (filter (\<lambda>x. \<not> P x) invs) pays2 d i) = Some b
            \<and> dp_revenue (data_point_at env invs pays3 d i) = Some c
            \<and> read_hundredths a + read_hundredths b = read_hundredths c"
    using a(1) b(1) c(1) unfolding rev eqA eqB eqC by blast
  show "map_option (map dp_revenue)
           (calculateReportData (a_browser r)
              (Some [an_invoice 1 10000 Pending, an_invoice 2 25050 Paid, an_invoice 3 4950 Overdue])
              (Some []) False False ''last_3_months'')
         = Some [Some ''0.00'', Some ''0.00'', Some ''400.00'']"
    by (simp add: report_defs scenario_defs Let_def Number_def upt_3 fl_501_2 fl_99_2 fl_701_2)
qed

theorem bucket_revenue_additive_witness:
  "length [an_invoice 1 10000 Pending, an_invoice 2 25050 Paid, an_invoice 3 4950 Overdue] \<le> 600
   \<and> (\<exists>a b c.
         dp_revenue (data_point_at (a_browser (Fin 0))
           (filter (\<lambda>x. inv_id x = 1)
              [an_invoice 1 10000 Pending, an_invoice 2 25050 Paid, an_invoice 3 4950 Overdue])
           [] \<lparr>jd_year = 2024, jd_month = 0, jd_date = 15\<rparr> 2) = Some a
       \<and> dp_revenue (data_point_at (a_browser (Fin 0))
           (filter (\<lambda>x. \<not> inv_id x = 1)
              [an_invoice 1 10000 Pending, an_invoice 2 25050 Paid, an_invoice 3 4950 Overdue])
           [] \<lparr>jd_year = 2024, jd_month = 0, jd_date = 15\<rparr> 2) = Some b
       \<and> dp_revenue (data_point_at (a_browser (Fin 0))
           [an_invoice 1 10000 Pending, an_invoice 2 25050 Paid, an_invoice 3 4950 Overdue]
           [] \<lparr>jd_year = 2024, jd_month = 0, jd_date = 15\<rparr> 2) = Some c
       \<and> read_hundredths a + read_hundredths b = read_hundredths c)"
proof -
  let ?invs = "[an_invoice 1 10000 Pending, an_invoice 2 25050 Paid, an_invoice 3 4950 Overdue]"
  have h1: "\<bar>inv_amount x\<bar> \<le> 10 ^ 10" if "x \<in> set ?invs" for x
    using that by (auto simp add: an_invoice_def)
  have h2: "length ?invs \<le> 600" by simp
  show ?thesis
    using h2 bucket_revenue_additive [OF h1 h2, where P = "\<lambda>x. inv_id x = 1"
        and env = "a_browser (Fin 0)" and ?pays1.0 = "[]" and ?pays2.0 = "[]" and ?pays3.0 = "[]"
        and d = "\<lparr>jd_year = 2024, jd_month = 0, jd_date = 15\<rparr>" and i = 2]
    by blast
qed

subsection \<open>C10: the report data as a function of the ledger\<close>

text \<open>
  C10 says that two runs on the same invoices and payments give the same data points, in
  every field.  The expenses of a data point are the revenue times a factor drawn with
  \<open>Math.random()\<close>: for one invoice of 100.00 the draws 0 and 0.5 give the expenses 60.00
  and 70.00.
\<close>

theorem report_expenses_counterexample:
  "calculateReportData (a_browser (Fin 0)) (Some [an_invoice 1 10000 Pending]) (Some [])
       False False ''last_3_months''
     = Some [\<lparr>dp_name = ''Jan'', dp_revenue = Some ''0.00'', dp_expenses = Some ''0.00'',
               dp_payments = Some ''0.00''\<rparr>,
             \<lparr>dp_name = ''Feb'', dp_revenue = Some ''0.00'', dp_expenses = Some ''0.00'',
               dp_payments = Some ''0.00''\<rparr>,
             \<lparr>dp_name = ''Mar'', dp_revenue = Some ''100.00'', dp_expenses = Some ''60.00'',
               dp_payments = Some ''0.00''\<rparr>]
   \<and> calculateReportData (a_browser (Fin (1 / 2))) (Some [an_invoice 1 10000 Pending]) (Some [])
       False False ''last_3_months''
     = Some [\<lparr>dp_name = ''Jan'', dp_revenue = Some ''0.00'', dp_expenses = Some ''0.00'',
               dp_payments = Some ''0.00''\<rparr>,
             \<lparr>dp_name = ''Feb'', dp_revenue = Some ''0.00'', dp_expenses = Some ''0.00'',
               dp_payments = Some ''0.00''\<rparr>,
             \<lparr>dp_name = ''Mar'', dp_revenue = Some ''100.00'', dp_expenses = Some ''70.00'',
               dp_payments = Some ''0.00''\<rparr>]"
  by (simp add: report_defs scenario_defs Let_def Number_def upt_3 fl_3_5 fl_1_5
      fl_double_3_5 fl_double_1_10 fl_sum_3_5_1_10 fl_100_times_3_5 fl_100_times_7_10)

text \<open>
  C10 as amended: the name, the revenue and the payments of every data point are the same
  in two runs on the same invoices, payments, loading flags and period, read on the same
  day in the same time zone, whatever \<open>Math.random()\<close> returns; the function returns the
  data points and writes nothing.
\<close>

theorem report_data_but_expenses_determined:
  assumes "now env' = now env" and "behindUTC env' = behindUTC env"
  shows "map_option (map (\<lambda>d. (dp_name d, dp_revenue d, dp_payments d)))
           (calculateReportData env' invs pays loadingInvoices loadingPayments period)
         = map_option (map (\<lambda>d. (dp_name d, dp_revenue d, dp_payments d)))
           (calculateReportData env invs pays loadingInvoices loadingPayments period)"
  using assms
  by (simp add: calculateReportData_def Let_def data_point_at_fields[OF assms]
      split: option.splits)

theorem report_data_but_expenses_determined_witness:
  "now (a_browser (Fin (1 / 2))) = now (a_browser (Fin 0))
   \<and> behindUTC (a_browser (Fin (1 / 2))) = behindUTC (a_browser (Fin 0))
   \<and> map_option (map (\<lambda>d. (dp_name d, dp_revenue d, dp_payments d)))
         (calculateReportData (a_browser (Fin (1 / 2))) (Some [an_invoice 1 10000 Pending])
            (Some []) False False ''last_3_months'')
       = map_option (map (\<lambda>d. (dp_name d, dp_revenue d, dp_payments d)))
         (calculateReportData (a_browser (Fin 0)) (Some [an_invoice 1 10000 Pending])
            (Some []) False False ''last_3_months'')"
proof -
  have h1: "now (a_browser (Fin (1 / 2))) = now (a_browser (Fin 0))"
    by (simp add: a_browser_def)
  have h2: "behindUTC (a_browser (Fin (1 / 2))) = behindUTC (a_browser (Fin 0))"
    by (simp add: a_browser_def)
  show ?thesis
    using h1 h2 report_data_but_expenses_determined [OF h1 h2] by simp
qed

end
